theory Spec2Isabelle
  imports Complex_Main "HOL-Library.Word" "HOL-Library.Log_Nat" "HOL-Library.Sublist"
begin

section \<open>The DNS client of \<^verbatim>\<open>client/main.go\<close>\<close>

text \<open>
  The development embeds \<^verbatim>\<open>Query\<close>, \<^verbatim>\<open>cacheSet\<close> and \<^verbatim>\<open>cacheGet\<close> of
  \<^verbatim>\<open>src/client/main.go\<close>. A slice is a reference into an explicit memory of backing
  arrays, because \<^verbatim>\<open>cacheGet\<close> writes through the slice it has stored; the clock is a
  parameter (the reading \<^verbatim>\<open>time.Now()\<close> returns at that call); durations are 64-bit
  nanosecond counts with Go's wrap-around and saturation written out; and
  \<^verbatim>\<open>Duration.Seconds\<close> is computed in binary64 as Go computes it.
\<close>

subsection \<open>Integers, durations and instants\<close>

text \<open>Go's \<^verbatim>\<open>/\<close> and \<^verbatim>\<open>%\<close> on integers truncate towards zero.\<close>

definition tdiv :: "int \<Rightarrow> int \<Rightarrow> int" where
  "tdiv a b = sgn a * sgn b * (\<bar>a\<bar> div \<bar>b\<bar>)"

definition tmod :: "int \<Rightarrow> int \<Rightarrow> int" where
  "tmod a b = a - b * tdiv a b"

text \<open>The value an \<^verbatim>\<open>int64\<close> holds after an arithmetic result \<open>x\<close>: two's complement wrap-around.\<close>

definition int64 :: "int \<Rightarrow> int" where
  "int64 x = (x + 2 ^ 63) mod 2 ^ 64 - 2 ^ 63"

text \<open>
  \<^verbatim>\<open>time.Duration\<close> is an \<^verbatim>\<open>int64\<close> count of nanoseconds. A \<^verbatim>\<open>time.Time\<close> is modelled
  as the instant it denotes, in nanoseconds on one time line.
\<close>

type_synonym Duration = int
type_synonym Time = int

definition minDuration :: Duration where
  "minDuration = - (2 ^ 63)"

definition maxDuration :: Duration where
  "maxDuration = 2 ^ 63 - 1"

definition Second :: Duration where
  "Second = 1000000000"

text \<open>\<^verbatim>\<open>time.Duration(n) * time.Second\<close>: a product of two \<^verbatim>\<open>int64\<close> values.\<close>

definition Duration_mul :: "int \<Rightarrow> Duration \<Rightarrow> Duration" where
  "Duration_mul n d = int64 (n * d)"

text \<open>\<^verbatim>\<open>t.Add(d)\<close>: the instant \<open>d\<close> after \<open>t\<close>.\<close>

definition Add :: "Time \<Rightarrow> Duration \<Rightarrow> Time" where
  "Add t d = t + d"

text \<open>
  \<^verbatim>\<open>t.Sub(u)\<close>: the duration \<open>t - u\<close>; where that does not fit a \<^verbatim>\<open>Duration\<close>, the
  minimum or the maximum duration is returned.
\<close>

definition Sub :: "Time \<Rightarrow> Time \<Rightarrow> Duration" where
  "Sub t u =
     (if t - u < minDuration then minDuration
      else if maxDuration < t - u then maxDuration
      else t - u)"

subsection \<open>Binary64 arithmetic\<close>

text \<open>
  A finite \<^verbatim>\<open>float64\<close> is modelled by the rational it denotes. Every operation returns
  the exact result rounded to the nearest number with a 53-bit significand, ties to the
  even significand. The exponent range is not modelled: the operands below lie between
  \<open>10\<^sup>-\<^sup>9\<close> and \<open>2\<^sup>3\<^sup>4\<close> in magnitude, or are zero.
\<close>

definition round_half_even :: "rat \<Rightarrow> int" where
  "round_half_even x =
     (let f = \<lfloor>x\<rfloor>; r = x - of_int f
      in if r < 1 / 2 then f
         else if 1 / 2 < r then f + 1
         else if even f then f else f + 1)"

text \<open>The binary exponent of a positive rational: \<open>2 powi ilog2 x \<le> x < 2 powi (ilog2 x + 1)\<close>.\<close>

definition ilog2 :: "rat \<Rightarrow> int" where
  "ilog2 x =
     (case quotient_of x of (p, q) \<Rightarrow>
        (let k = bitlen p - bitlen q in if 2 powi k \<le> x then k else k - 1))"

definition float64 :: "rat \<Rightarrow> rat" where
  "float64 x =
     (if x = 0 then 0
      else let u = 2 powi (ilog2 \<bar>x\<bar> - 52)
           in sgn x * of_int (round_half_even (\<bar>x\<bar> / u)) * u)"

text \<open>
  The numbers a \<^verbatim>\<open>float64\<close> holds exactly, exponent range apart: an integer of less
  than 54 bits times a power of two. The predicate is used in proofs only.
\<close>

definition representable :: "rat \<Rightarrow> bool" where
  "representable x \<longleftrightarrow> (\<exists>m j. \<bar>m\<bar> < 2 ^ 53 \<and> x = of_int m * 2 powi j)"

definition fadd :: "rat \<Rightarrow> rat \<Rightarrow> rat" where
  "fadd a b = float64 (a + b)"

definition fdiv :: "rat \<Rightarrow> rat \<Rightarrow> rat" where
  "fdiv a b = float64 (a / b)"

text \<open>
  \<^verbatim>\<open>func (d Duration) Seconds() float64\<close> of package \<^verbatim>\<open>time\<close>:
  \<^verbatim>\<open>sec := d / Second; nsec := d % Second; return float64(sec) + float64(nsec)/1e9\<close>.
\<close>

definition Seconds :: "Duration \<Rightarrow> rat" where
  "Seconds d =
     (let sec = tdiv d Second; nsec = tmod d Second
      in fadd (float64 (of_int sec)) (fdiv (float64 (of_int nsec)) 1000000000))"

text \<open>\<^verbatim>\<open>int(math.Ceil(x))\<close>: the least integer not below \<open>x\<close>.\<close>

definition Ceil :: "rat \<Rightarrow> int" where
  "Ceil x = \<lceil>x\<rceil>"

subsection \<open>Answers, slices and memory\<close>

record Answer =
  Name :: string
  Type :: "16 word"
  TTL :: int
  Data :: string

text \<open>
  A \<^verbatim>\<open>[]Answer\<close> is \<^verbatim>\<open>nil\<close> or refers to a backing array; the code never reslices, so
  a slice spans its whole array and is identified by the array's address.
\<close>

type_synonym addr = nat

datatype slice = NilSlice | Slice addr

record memory =
  arrays :: "addr \<Rightarrow> Answer list"
  next_free :: addr

definition elems :: "memory \<Rightarrow> slice \<Rightarrow> Answer list" where
  "elems m s = (case s of NilSlice \<Rightarrow> [] | Slice a \<Rightarrow> arrays m a)"

definition len :: "memory \<Rightarrow> slice \<Rightarrow> nat" where
  "len m s = length (elems m s)"

text \<open>A slice literal \<^verbatim>\<open>[]Answer{...}\<close> allocates a new backing array.\<close>

definition alloc :: "memory \<Rightarrow> Answer list \<Rightarrow> slice \<times> memory" where
  "alloc m xs =
     (Slice (next_free m),
      m\<lparr>arrays := (arrays m)(next_free m := xs), next_free := Suc (next_free m)\<rparr>)"

text \<open>
  \<^verbatim>\<open>type dnsClient func(string, uint16) []Answer\<close>: an upstream transport. It is outside
  the program, so it is any function that returns a slice and may change memory.
\<close>

type_synonym dnsClient = "string \<Rightarrow> 16 word \<Rightarrow> memory \<Rightarrow> slice \<times> memory"

subsection \<open>The client's state\<close>

record dnsCached =
  answer :: slice
  expired :: Time

text \<open>
  \<^verbatim>\<open>sync.Map\<close> holds values of any type; \<^verbatim>\<open>cacheGet\<close> checks that the value it loads
  is a \<^verbatim>\<open>*dnsCached\<close>.
\<close>

datatype cache_value = Cached dnsCached | Foreign

type_synonym dnsRouter = "string \<rightharpoonup> dnsClient"

record DNSClient =
  cache :: "string \<rightharpoonup> cache_value"
  router :: dnsRouter
  staticIpV4 :: "string \<rightharpoonup> string"
  staticIpV6 :: "string \<rightharpoonup> string"

subsection \<open>The answer cache\<close>

text \<open>
  The loop of \<^verbatim>\<open>cacheSet\<close>:
  \<^verbatim>\<open>for _, ans := range answer { if ans.TTL < minTTL { minTTL = ans.TTL } }\<close>.
\<close>

fun minTTL_loop :: "int \<Rightarrow> Answer list \<Rightarrow> int" where
  "minTTL_loop minTTL [] = minTTL"
| "minTTL_loop minTTL (ans # rest) =
     minTTL_loop (if TTL ans < minTTL then TTL ans else minTTL) rest"

definition cacheSet :: "DNSClient \<Rightarrow> memory \<Rightarrow> Time \<Rightarrow> string \<Rightarrow> slice \<Rightarrow> DNSClient" where
  "cacheSet c m now key ans =
     (case elems m ans of
        [] \<Rightarrow> c
      | ans0 # _ \<Rightarrow>
          (let minTTL = minTTL_loop (TTL ans0) (elems m ans);
               val = \<lparr>answer = ans, expired = Add now (Duration_mul minTTL Second)\<rparr>
           in c\<lparr>cache := (cache c)(key \<mapsto> Cached val)\<rparr>))"

text \<open>
  The loop of \<^verbatim>\<open>cacheGet\<close>:
  \<^verbatim>\<open>for idx := range cached.answer { cached.answer[idx].TTL = ttl }\<close>,
  a write to every element of the backing array.
\<close>

definition set_ttls :: "memory \<Rightarrow> slice \<Rightarrow> int \<Rightarrow> memory" where
  "set_ttls m s ttl =
     (case s of
        NilSlice \<Rightarrow> m
      | Slice a \<Rightarrow> m\<lparr>arrays := (arrays m)(a := map (\<lambda>x. x\<lparr>TTL := ttl\<rparr>) (arrays m a))\<rparr>)"

definition cacheGet ::
  "DNSClient \<Rightarrow> memory \<Rightarrow> Time \<Rightarrow> string \<Rightarrow> (slice \<times> bool) \<times> DNSClient \<times> memory" where
  "cacheGet c m now key =
     (case cache c key of
        None \<Rightarrow> ((NilSlice, False), c, m)
      | Some Foreign \<Rightarrow> ((NilSlice, False), c\<lparr>cache := (cache c)(key := None)\<rparr>, m)
      | Some (Cached cached) \<Rightarrow>
          (let elapsed = Sub (expired cached) now;
               ttl = Ceil (Seconds elapsed)
           in if ttl \<le> 0
              then ((NilSlice, False), c\<lparr>cache := (cache c)(key := None)\<rparr>, m)
              else ((answer cached, True), c, set_ttls m (answer cached) ttl)))"

subsection \<open>Names and cache keys\<close>

text \<open>
  \<^verbatim>\<open>dns.IsFqdn\<close> and \<^verbatim>\<open>dns.Fqdn\<close> of the library \<^verbatim>\<open>github.com/miekg/dns\<close>: a name is
  fully qualified when it ends in a dot that is not escaped, that is, preceded by an even
  number of backslashes; \<^verbatim>\<open>Fqdn\<close> appends a dot to any other name. Neither changes a
  letter.
\<close>

definition IsFqdn :: "string \<Rightarrow> bool" where
  "IsFqdn s =
     (s \<noteq> [] \<and> last s = CHR ''.'' \<and>
      even (length (takeWhile (\<lambda>ch. ch = CHR 0x5C) (rev (butlast s)))))"

definition Fqdn :: "string \<Rightarrow> string" where
  "Fqdn s = (if IsFqdn s then s else s @ ''.'')"

text \<open>\<^verbatim>\<open>strconv.Itoa\<close>: the decimal digits of an integer, after a minus sign if it is negative.\<close>

definition digit :: "nat \<Rightarrow> char" where
  "digit n = ''0123456789'' ! n"

function digits :: "nat \<Rightarrow> string" where
  "digits n =
     (if n < 10 then [digit n]
      else digits (n div 10) @ [digit (n mod 10)])"
  by pat_completeness auto
termination
  by (relation "measure (\<lambda>n. n)") auto

declare digits.simps [simp del]

definition Itoa :: "int \<Rightarrow> string" where
  "Itoa i = (if i < 0 then ''-'' @ digits (nat (- i)) else digits (nat i))"

definition TypeA :: "16 word" where
  "TypeA = 1"

definition TypeAAAA :: "16 word" where
  "TypeAAAA = 28"

text \<open>\<^verbatim>\<open>cacheKey := name + "|" + strconv.Itoa(int(qtype))\<close>, for a normalized name.\<close>

definition cacheKey :: "string \<Rightarrow> 16 word \<Rightarrow> string" where
  "cacheKey name qtype = name @ ''|'' @ Itoa (uint qtype)"

subsection \<open>The routing table\<close>

text \<open>
  Modelled from the spec: the type \<^verbatim>\<open>dnsRouter\<close> and its methods \<^verbatim>\<open>add\<close> and \<^verbatim>\<open>route\<close>
  are not in \<^verbatim>\<open>client/main.go\<close>. The spec describes a map keyed by domain in which a
  later registration of the same domain replaces the earlier one, and a lookup that walks
  from the full domain through its successive parent domains, one leftmost label stripped
  at a time, until a match is found or the root is reached. The root is the name \<open>''.''\<close>;
  it is the last name the walk looks up.
\<close>

definition add :: "(string \<rightharpoonup> 'h) \<Rightarrow> string \<Rightarrow> 'h \<Rightarrow> (string \<rightharpoonup> 'h)" where
  "add r domain cli = r(domain \<mapsto> cli)"

text \<open>
  Modelled from the spec: stripping one leftmost label. The name left when the leftmost
  label and its dot are removed.
\<close>

definition strip_label :: "string \<Rightarrow> string" where
  "strip_label d = drop 1 (dropWhile (\<lambda>ch. ch \<noteq> CHR ''.'') d)"

lemma length_strip_label: "d \<noteq> [] \<Longrightarrow> length (strip_label d) < length d"
proof -
  assume "d \<noteq> []"
  then have pos: "0 < length d"
    by simp
  have "length (dropWhile (\<lambda>ch. ch \<noteq> CHR ''.'') d) \<le> length d"
    by (rule length_dropWhile_le)
  with pos have "length (dropWhile (\<lambda>ch. ch \<noteq> CHR ''.'') d) - 1 < length d"
    by arith
  then show ?thesis
    by (simp add: strip_label_def)
qed

lemma strip_label_Nil [simp]: "strip_label [] = []"
  by (simp add: strip_label_def)

text \<open>
  Modelled from the spec: the walk of \<^verbatim>\<open>route\<close>. Each name is looked up as it is reached; the
  walk ends at the first match, or with the lookup of the root.
\<close>

function route :: "(string \<rightharpoonup> 'h) \<Rightarrow> string \<Rightarrow> 'h option" where
  "route r d =
     (case r d of
        Some cli \<Rightarrow> Some cli
      | None \<Rightarrow>
          if d = ''.'' then None
          else if strip_label d = [] then r ''.''
          else route r (strip_label d))"
  by pat_completeness auto
termination
proof (relation "measure (\<lambda>(r, d). length d)")
  show "wf (measure (\<lambda>(r, d). length d))"
    by simp
next
  fix r :: "string \<rightharpoonup> 'h" and d :: string
  assume "strip_label d \<noteq> []"
  then have "d \<noteq> []"
    by auto
  then show "((r, strip_label d), (r, d)) \<in> measure (\<lambda>(r, d). length d)"
    by (simp add: length_strip_label)
qed

declare route.simps [simp del]

text \<open>
  What the claim about \<^verbatim>\<open>route\<close> calls a configured domain that is a suffix of the queried
  domain: \<open>k\<close> covers \<open>d\<close> when it is \<open>d\<close> itself, or the root, or what is left of \<open>d\<close> after
  some leading labels and their dot. The longest match is a covering domain bound in the
  table that no other such domain exceeds in length. Both are used to state the claim
  only; \<^verbatim>\<open>route\<close> does not call them.
\<close>

definition covers :: "string \<Rightarrow> string \<Rightarrow> bool" where
  "covers k d \<longleftrightarrow> k = d \<or> k = ''.'' \<or> (k \<noteq> [] \<and> (\<exists>p. d = p @ ''.'' @ k))"

definition longest_match :: "(string \<rightharpoonup> 'h) \<Rightarrow> string \<Rightarrow> string \<Rightarrow> bool" where
  "longest_match r d k \<longleftrightarrow>
     covers k d \<and> r k \<noteq> None \<and> (\<forall>k'. covers k' d \<and> r k' \<noteq> None \<longrightarrow> length k' \<le> length k)"

subsection \<open>The dispatcher\<close>

text \<open>
  \<^verbatim>\<open>Query\<close>. The instants \<open>tg\<close> and \<open>ts\<close> are the readings of \<^verbatim>\<open>time.Now()\<close> in the
  call of \<^verbatim>\<open>cacheGet\<close> and in the call of \<^verbatim>\<open>cacheSet\<close>.
\<close>

definition Query ::
  "DNSClient \<Rightarrow> memory \<Rightarrow> Time \<Rightarrow> Time \<Rightarrow> string \<Rightarrow> 16 word \<Rightarrow> slice \<times> DNSClient \<times> memory" where
  "Query c m tg ts name0 qtype =
     (let name = Fqdn name0;
          static = (if qtype = TypeA then staticIpV4 c name
                    else if qtype = TypeAAAA then staticIpV6 c name
                    else None)
      in case static of
           Some staticIp \<Rightarrow>
             (case alloc m [\<lparr>Name = name, Type = qtype, TTL = 60, Data = staticIp\<rparr>] of
                (s, m') \<Rightarrow> (s, c, m'))
         | None \<Rightarrow>
             (case cacheGet c m tg (cacheKey name qtype) of
                ((cached, True), c', m') \<Rightarrow> (cached, c', m')
              | ((cached, False), c', m') \<Rightarrow>
                  (case route (router c') name of
                     None \<Rightarrow> (NilSlice, c', m')
                   | Some cli \<Rightarrow>
                       (case cli name qtype m' of
                          (ans, m'') \<Rightarrow>
                            (ans, cacheSet c' m'' ts (cacheKey name qtype) ans, m'')))))"

subsection \<open>A client with empty tables and an empty memory\<close>

definition client0 :: DNSClient where
  "client0 = \<lparr>cache = Map.empty, router = Map.empty, staticIpV4 = Map.empty, staticIpV6 = Map.empty\<rparr>"

definition memory0 :: memory where
  "memory0 = \<lparr>arrays = (\<lambda>a. []), next_free = 0\<rparr>"

subsection \<open>Example answers and caches\<close>

definition answer_ttl :: "int \<Rightarrow> Answer" where
  "answer_ttl t = \<lparr>Name = ''example.com.'', Type = TypeA, TTL = t, Data = ''192.0.2.1''\<rparr>"

definition memory_of :: "Answer list \<Rightarrow> memory" where
  "memory_of xs = \<lparr>arrays = (\<lambda>a. [])(0 := xs), next_free = 1\<rparr>"

definition cached_at :: "Time \<Rightarrow> DNSClient" where
  "cached_at t = client0\<lparr>cache := [''example.com.|1'' \<mapsto> Cached \<lparr>answer = Slice 0, expired = t\<rparr>]\<rparr>"

subsection \<open>Example upstream, client and routing table\<close>

definition upstream0 :: dnsClient where
  "upstream0 name qtype m = alloc m [\<lparr>Name = name, Type = qtype, TTL = 300, Data = ''93.184.216.34''\<rparr>]"

definition client1 :: DNSClient where
  "client1 =
     \<lparr>cache = Map.empty,
      router = [''example.com.'' \<mapsto> upstream0],
      staticIpV4 = [''static.example.com.'' \<mapsto> ''10.0.0.1''],
      staticIpV6 = [''v6.example.com.'' \<mapsto> ''2001:db8::1'']\<rparr>"


definition client2 :: DNSClient where
  "client2 =
     client1\<lparr>cache :=
       [''www.example.com.|1'' \<mapsto> Cached \<lparr>answer = Slice 0, expired = 300000000000\<rparr>]\<rparr>"

text \<open>Memory and client after the example upstream has answered the query of type AAAA for
  \<open>static.example.com.\<close> at instant 0.\<close>

definition memory2 :: memory where
  "memory2 =
     \<lparr>arrays = (\<lambda>a. [])(0 :=
        [\<lparr>Name = ''static.example.com.'', Type = TypeAAAA, TTL = 300, Data = ''93.184.216.34''\<rparr>]),
      next_free = 1\<rparr>"

definition client4 :: DNSClient where
  "client4 =
     client1\<lparr>cache :=
       [''static.example.com.|28'' \<mapsto> Cached \<lparr>answer = Slice 0, expired = 300000000000\<rparr>]\<rparr>"

text \<open>An upstream that answers every query with a newly allocated empty slice, and a client
  that routes \<open>example.com.\<close> to it.\<close>

definition upstream_empty :: dnsClient where
  "upstream_empty name qtype m = alloc m []"

definition client3 :: DNSClient where
  "client3 =
     \<lparr>cache = Map.empty,
      router = [''example.com.'' \<mapsto> upstream_empty],
      staticIpV4 = Map.empty,
      staticIpV6 = Map.empty\<rparr>"

definition router_AB :: "string \<rightharpoonup> string" where
  "router_AB = add (add Map.empty ''example.com.'' ''A'') ''mail.example.com.'' ''B''"

section \<open>Properties of the arithmetic\<close>

subsection \<open>Rounding to binary64\<close>

lemma round_half_even_bounds: "\<lfloor>x\<rfloor> \<le> round_half_even x \<and> round_half_even x \<le> \<lceil>x\<rceil>"
proof (cases "x = of_int \<lfloor>x\<rfloor>")
  case True
  then have "round_half_even x = \<lfloor>x\<rfloor>"
    by (simp add: round_half_even_def)
  then show ?thesis
    by (simp add: floor_le_ceiling)
next
  case False
  then have "of_int \<lfloor>x\<rfloor> < x"
    using of_int_floor_le [of x] by linarith
  then have "\<lfloor>x\<rfloor> < \<lceil>x\<rceil>"
    by (simp only: less_ceiling_iff)
  then have "\<lfloor>x\<rfloor> + 1 \<le> \<lceil>x\<rceil>"
    by linarith
  then show ?thesis
    by (simp add: round_half_even_def Let_def)
qed

lemma round_half_even_of_int [simp]: "round_half_even (of_int k) = k"
  by (simp add: round_half_even_def)

lemma pow2_quotient_bounds:
  fixes p q :: int
  assumes "2 ^ a \<le> p" "p < 2 ^ Suc a" "2 ^ b \<le> q" "q < 2 ^ Suc b"
  shows "(2::rat) powi (int a - int b - 1) \<le> of_int p / of_int q"
    and "of_int p / of_int q < (2::rat) powi (int a - int b + 1)"
proof -
  have q: "0 < q"
    using assms(3) by (smt (verit) zero_less_power)
  have p: "0 < p"
    using assms(1) by (smt (verit) zero_less_power)
  have e1: "int a - int b - 1 = int a - int (Suc b)"
    by simp
  have "(2::rat) powi (int a - int b - 1) = 2 powi (int a - int (Suc b))"
    by (simp only: e1)
  also have "\<dots> = 2 powi int a / 2 powi int (Suc b)"
    by (rule power_int_diff) simp
  also have "\<dots> = 2 ^ a / 2 ^ Suc b"
    by (simp only: power_int_of_nat)
  finally have lo: "(2::rat) powi (int a - int b - 1) = 2 ^ a / 2 ^ Suc b" .
  have e2: "int a - int b + 1 = int (Suc a) - int b"
    by simp
  have "(2::rat) powi (int a - int b + 1) = 2 powi (int (Suc a) - int b)"
    by (simp only: e2)
  also have "\<dots> = 2 powi int (Suc a) / 2 powi int b"
    by (rule power_int_diff) simp
  also have "\<dots> = 2 ^ Suc a / 2 ^ b"
    by (simp only: power_int_of_nat)
  finally have hi: "(2::rat) powi (int a - int b + 1) = 2 ^ Suc a / 2 ^ b" .
  have "2 ^ a * q \<le> p * 2 ^ Suc b"
    using assms(1,4) p q by (intro mult_mono) simp_all
  then have "(of_int (2 ^ a * q) :: rat) \<le> of_int (p * 2 ^ Suc b)"
    by (simp only: of_int_le_iff)
  then have "(2::rat) ^ a * of_int q \<le> of_int p * 2 ^ Suc b"
    by simp
  with q show "(2::rat) powi (int a - int b - 1) \<le> of_int p / of_int q"
    unfolding lo by (simp add: field_simps)
  have "p * 2 ^ b < 2 ^ Suc a * q"
    using assms(2,3) p q by (intro mult_less_le_imp_less) simp_all
  then have "(of_int (p * 2 ^ b) :: rat) < of_int (2 ^ Suc a * q)"
    by (simp only: of_int_less_iff)
  then have "of_int p * (2::rat) ^ b < 2 ^ Suc a * of_int q"
    by simp
  with q show "of_int p / of_int q < (2::rat) powi (int a - int b + 1)"
    unfolding hi by (simp add: field_simps)
qed

lemma bitlen_Suc_bounds:
  assumes "0 < (p::int)"
  shows "2 ^ nat (bitlen p - 1) \<le> p" and "p < 2 ^ Suc (nat (bitlen p - 1))"
    and "bitlen p = int (nat (bitlen p - 1)) + 1"
proof -
  have pos: "1 \<le> bitlen p"
    using assms bitlen_eq_zero_iff [of p] bitlen_nonneg [of p] by linarith
  then show eq: "bitlen p = int (nat (bitlen p - 1)) + 1"
    by simp
  show "2 ^ nat (bitlen p - 1) \<le> p"
    using bitlen_bounds [OF assms] by simp
  have "Suc (nat (bitlen p - 1)) = nat (bitlen p)"
    using pos by simp
  then show "p < 2 ^ Suc (nat (bitlen p - 1))"
    using bitlen_bounds [OF assms] by simp
qed

lemma ilog2_bounds:
  assumes "0 < x"
  shows "2 powi ilog2 x \<le> x" and "x < 2 powi (ilog2 x + 1)"
proof -
  obtain p q where pq: "quotient_of x = (p, q)"
    by (cases "quotient_of x")
  then have q: "0 < q" and x: "x = of_int p / of_int q"
    using quotient_of_denom_pos quotient_of_div by auto
  with assms have p: "0 < p"
    by (simp add: zero_less_divide_iff)
  define a where "a = nat (bitlen p - 1)"
  define b where "b = nat (bitlen q - 1)"
  define k where "k = bitlen p - bitlen q"
  have k: "k = int a - int b"
    using bitlen_Suc_bounds(3) [OF p] bitlen_Suc_bounds(3) [OF q]
    by (simp add: k_def a_def b_def)
  have lo: "2 powi (k - 1) \<le> x" and hi: "x < 2 powi (k + 1)"
    unfolding k x
    using pow2_quotient_bounds [of a p b q] bitlen_Suc_bounds(1,2) [OF p] bitlen_Suc_bounds(1,2) [OF q]
    by (simp_all add: a_def b_def)
  have e: "ilog2 x = (if 2 powi k \<le> x then k else k - 1)"
    by (simp add: ilog2_def pq k_def Let_def)
  show "2 powi ilog2 x \<le> x"
    using lo by (simp add: e)
  show "x < 2 powi (ilog2 x + 1)"
    using hi by (auto simp add: e)
qed

lemma float64_pos_decomp:
  assumes "0 < x"
  obtains M e where "float64 x = of_int M * 2 powi (e - 52)"
    and "2 powi e \<le> x" and "x < 2 powi (e + 1)"
    and "\<lfloor>x / 2 powi (e - 52)\<rfloor> \<le> M" and "M \<le> \<lceil>x / 2 powi (e - 52)\<rceil>"
proof
  from assms show "float64 x = of_int (round_half_even (x / 2 powi (ilog2 x - 52))) * 2 powi (ilog2 x - 52)"
    by (simp add: float64_def Let_def)
  show "2 powi ilog2 x \<le> x" and "x < 2 powi (ilog2 x + 1)"
    using ilog2_bounds [OF assms] by simp_all
  show "\<lfloor>x / 2 powi (ilog2 x - 52)\<rfloor> \<le> round_half_even (x / 2 powi (ilog2 x - 52))"
    and "round_half_even (x / 2 powi (ilog2 x - 52)) \<le> \<lceil>x / 2 powi (ilog2 x - 52)\<rceil>"
    using round_half_even_bounds by simp_all
qed

lemma binade_unit:
  fixes e :: int
  defines "u \<equiv> (2::rat) powi (e - 52)"
  shows "0 < u" and "2 powi e = 2 ^ 52 * u" and "2 powi (e + 1) = 2 ^ 53 * u"
proof -
  show "0 < u"
    by (simp add: u_def)
  have "(2::rat) powi e = 2 powi (52 + (e - 52))"
    by (rule arg_cong [where f = "\<lambda>n. 2 powi n"]) simp
  also have "\<dots> = 2 powi 52 * 2 powi (e - 52)"
    by (rule power_int_add) simp
  finally show "2 powi e = 2 ^ 52 * u"
    by (simp add: u_def)
  have "(2::rat) powi (e + 1) = 2 powi (53 + (e - 52))"
    by (rule arg_cong [where f = "\<lambda>n. 2 powi n"]) simp
  also have "\<dots> = 2 powi 53 * 2 powi (e - 52)"
    by (rule power_int_add) simp
  finally show "2 powi (e + 1) = 2 ^ 53 * u"
    by (simp add: u_def)
qed

lemma representable_multiple:
  assumes "representable a" and "2 powi e \<le> a"
  shows "\<exists>k. a = of_int k * 2 powi (e - 52)"
proof -
  from assms(1) obtain m j where m: "\<bar>m\<bar> < 2 ^ 53" and a: "a = of_int m * 2 powi j"
    by (auto simp: representable_def)
  have "e - 52 \<le> j"
  proof (rule ccontr)
    assume "\<not> e - 52 \<le> j"
    then have j: "j + 53 \<le> e"
      by simp
    have "m < 2 ^ 53"
      using m by linarith
    then have "(of_int m :: rat) < of_int (2 ^ 53)"
      by (simp only: of_int_less_iff)
    then have "(of_int m :: rat) < 2 ^ 53"
      by simp
    then have "a < 2 ^ 53 * 2 powi j"
      unfolding a by (simp add: mult_strict_right_mono)
    also have "(2::rat) ^ 53 * 2 powi j = 2 powi (53 + j)"
      by (subst power_int_add) simp_all
    also have "\<dots> \<le> 2 powi e"
      using j by (intro power_int_increasing) simp_all
    finally show False
      using assms(2) by simp
  qed
  then have "(2::rat) powi j = 2 powi (int (nat (j - (e - 52))) + (e - 52))"
    by (intro arg_cong [where f = "\<lambda>n. 2 powi n"]) simp
  also have "\<dots> = 2 powi int (nat (j - (e - 52))) * 2 powi (e - 52)"
    by (rule power_int_add) simp
  finally have "a = of_int (m * 2 ^ nat (j - (e - 52))) * 2 powi (e - 52)"
    unfolding a by (simp only: power_int_of_nat of_int_mult of_int_power of_int_numeral mult.assoc)
  then show ?thesis ..
qed

lemma float64_lower:
  assumes "0 < x" and "a \<le> x" and "representable a"
  shows "a \<le> float64 x"
proof -
  from assms(1) obtain M e where f: "float64 x = of_int M * 2 powi (e - 52)"
    and lo: "2 powi e \<le> x" and M: "\<lfloor>x / 2 powi (e - 52)\<rfloor> \<le> M"
    by (rule float64_pos_decomp)
  define u where "u = (2::rat) powi (e - 52)"
  have u: "0 < u" and e: "2 powi e = of_int (2 ^ 52) * u"
    using binade_unit [of e] by (simp_all add: u_def)
  have M': "\<lfloor>x / u\<rfloor> \<le> M" and f': "float64 x = of_int M * u"
    using M f by (simp_all only: u_def)
  show ?thesis
  proof (cases "a < 2 powi e")
    case True
    have "of_int (2 ^ 52) \<le> x / u"
      using lo u unfolding e by (simp only: pos_le_divide_eq)
    then have "2 ^ 52 \<le> \<lfloor>x / u\<rfloor>"
      by (simp only: le_floor_iff)
    with M' have "2 ^ 52 \<le> M"
      by linarith
    then have "(of_int (2 ^ 52) :: rat) \<le> of_int M"
      by (simp only: of_int_le_iff)
    then have "of_int (2 ^ 52) * u \<le> of_int M * u"
      using u by (simp only: mult_le_cancel_right_pos)
    with True show ?thesis
      unfolding f' e by linarith
  next
    case False
    then obtain k where k: "a = of_int k * u"
      using representable_multiple [OF assms(3), of e] by (auto simp: u_def)
    with assms(2) u have "of_int k \<le> x / u"
      by (simp only: pos_le_divide_eq)
    then have "k \<le> \<lfloor>x / u\<rfloor>"
      by (simp only: le_floor_iff)
    with M' have "k \<le> M"
      by linarith
    then have "(of_int k :: rat) * u \<le> of_int M * u"
      using u by (simp only: mult_le_cancel_right_pos of_int_le_iff)
    then show ?thesis
      by (simp only: f' k)
  qed
qed

lemma float64_upper:
  assumes "0 < x" and "x \<le> b" and "representable b"
  shows "float64 x \<le> b"
proof -
  from assms(1) obtain M e where f: "float64 x = of_int M * 2 powi (e - 52)"
    and lo: "2 powi e \<le> x" and hi: "x < 2 powi (e + 1)"
    and M: "M \<le> \<lceil>x / 2 powi (e - 52)\<rceil>"
    by (rule float64_pos_decomp)
  define u where "u = (2::rat) powi (e - 52)"
  have u: "0 < u" and e: "2 powi (e + 1) = of_int (2 ^ 53) * u"
    using binade_unit [of e] by (simp_all add: u_def)
  have M': "M \<le> \<lceil>x / u\<rceil>" and f': "float64 x = of_int M * u"
    using M f by (simp_all only: u_def)
  show ?thesis
  proof (cases "2 powi (e + 1) \<le> b")
    case True
    have "x < of_int (2 ^ 53) * u"
      using hi unfolding e .
    then have "x / u \<le> of_int (2 ^ 53)"
      using u by (simp only: pos_divide_le_eq less_imp_le)
    then have "\<lceil>x / u\<rceil> \<le> 2 ^ 53"
      by (simp only: ceiling_le_iff)
    with M' have "M \<le> 2 ^ 53"
      by linarith
    then have "(of_int M :: rat) \<le> of_int (2 ^ 53)"
      by (simp only: of_int_le_iff)
    then have "of_int M * u \<le> of_int (2 ^ 53) * u"
      using u by (simp only: mult_le_cancel_right_pos)
    with True show ?thesis
      unfolding f' e by linarith
  next
    case False
    from lo assms(2) have "2 powi e \<le> b"
      by simp
    then obtain k where k: "b = of_int k * u"
      using representable_multiple [OF assms(3), of e] by (auto simp: u_def)
    with assms(2) u have "x / u \<le> of_int k"
      by (simp only: pos_divide_le_eq)
    then have "\<lceil>x / u\<rceil> \<le> k"
      by (simp only: ceiling_le_iff)
    with M' have "M \<le> k"
      by linarith
    then have "(of_int M :: rat) * u \<le> of_int k * u"
      using u by (simp only: mult_le_cancel_right_pos of_int_le_iff)
    then show ?thesis
      by (simp only: f' k)
  qed
qed

lemma float64_minus: "float64 (- x) = - float64 x"
  by (simp add: float64_def Let_def)

lemma float64_zero [simp]: "float64 0 = 0"
  by (simp add: float64_def)

lemma float64_pos: "0 < x \<Longrightarrow> 0 < float64 x"
proof -
  assume x: "0 < x"
  have "representable (2 powi ilog2 x)"
    unfolding representable_def by (rule exI [of _ 1], rule exI [of _ "ilog2 x"]) simp
  then have "2 powi ilog2 x \<le> float64 x"
    using float64_lower [OF x] ilog2_bounds(1) [OF x] by simp
  moreover have "(0::rat) < 2 powi ilog2 x"
    by simp
  ultimately show ?thesis
    by linarith
qed

lemma float64_neg: "x < 0 \<Longrightarrow> float64 x < 0"
  using float64_pos [of "- x"] by (simp add: float64_minus)

lemma float64_exact:
  assumes "representable x"
  shows "float64 x = x"
proof -
  have pos: "float64 y = y" if "0 < y" "representable y" for y
    using float64_lower [OF that(1) _ that(2)] float64_upper [OF that(1) _ that(2)] by simp
  have neg: "representable (- x)"
    using assms unfolding representable_def
    by (metis abs_minus_cancel mult_minus_left of_int_minus)
  consider "0 < x" | "x = 0" | "x < 0"
    by linarith
  then show ?thesis
  proof cases
    case 1
    then show ?thesis
      using pos assms by simp
  next
    case 2
    then show ?thesis
      by simp
  next
    case 3
    then have "float64 (- x) = - x"
      using pos [of "- x"] neg by simp
    then show ?thesis
      by (simp add: float64_minus)
  qed
qed

lemma representable_of_int: "\<bar>n\<bar> < 2 ^ 53 \<Longrightarrow> representable (of_int n)"
  unfolding representable_def by (rule exI [of _ n], rule exI [of _ 0]) simp

subsection \<open>Seconds of a duration\<close>

lemma tdiv_tmod_nonneg:
  assumes "0 \<le> d"
  shows "tdiv d Second = d div 1000000000" and "tmod d Second = d mod 1000000000"
proof -
  show a: "tdiv d Second = d div 1000000000"
  proof (cases "d = 0")
    case True
    then show ?thesis by (simp add: tdiv_def)
  next
    case False
    with assms have "sgn d = 1" "\<bar>d\<bar> = d"
      by simp_all
    then show ?thesis
      by (simp add: tdiv_def Second_def)
  qed
  show "tmod d Second = d mod 1000000000"
    unfolding tmod_def a by (simp add: Second_def minus_mult_div_eq_mod)
qed

lemma tdiv_tmod_nonpos:
  assumes "d \<le> 0"
  shows "tdiv d Second \<le> 0" and "tmod d Second \<le> 0"
proof -
  have a: "tdiv d Second = - ((- d) div 1000000000)"
  proof (cases "d = 0")
    case True
    then show ?thesis by (simp add: tdiv_def)
  next
    case False
    with assms have "sgn d = - 1" "\<bar>d\<bar> = - d"
      by simp_all
    then show ?thesis
      by (simp add: tdiv_def Second_def)
  qed
  from assms have "0 \<le> (- d) div 1000000000"
    by simp
  then show "tdiv d Second \<le> 0"
    unfolding a by simp
  have "tmod d Second = d - Second * (- ((- d) div 1000000000))"
    by (simp only: tmod_def a)
  then have "tmod d Second = - ((- d) mod 1000000000)"
    using minus_mult_div_eq_mod [of "- d" 1000000000] by (simp add: Second_def)
  moreover have "0 \<le> (- d) mod 1000000000"
    by simp
  ultimately show "tmod d Second \<le> 0"
    by simp
qed

lemma float64_nonneg: "0 \<le> x \<Longrightarrow> 0 \<le> float64 x"
  using float64_pos [of x] by (cases "x = 0") (simp_all add: less_le)

lemma float64_nonpos: "x \<le> 0 \<Longrightarrow> float64 x \<le> 0"
  using float64_neg [of x] by (cases "x = 0") (simp_all add: less_le)

lemma Seconds_pos:
  assumes "0 < d"
  shows "0 < Seconds d"
proof -
  define sec where "sec = d div 1000000000"
  define nsec where "nsec = d mod 1000000000"
  have S: "Seconds d = float64 (float64 (of_int sec) + float64 (float64 (of_int nsec) / 1000000000))"
    using assms by (simp add: Seconds_def Let_def fadd_def fdiv_def tdiv_tmod_nonneg sec_def nsec_def)
  have "0 \<le> sec" "0 \<le> nsec"
    using assms by (simp_all add: sec_def nsec_def pos_imp_zdiv_nonneg_iff)
  have d: "d = sec * 1000000000 + nsec"
    by (simp add: sec_def nsec_def)
  have a: "0 \<le> float64 (of_int sec)"
    using \<open>0 \<le> sec\<close> by (intro float64_nonneg) simp
  have b: "0 \<le> float64 (float64 (of_int nsec) / 1000000000)"
    using \<open>0 \<le> nsec\<close> by (intro float64_nonneg divide_nonneg_pos) simp_all
  have "0 < sec \<or> 0 < nsec"
    using d assms \<open>0 \<le> sec\<close> \<open>0 \<le> nsec\<close> by linarith
  then have "0 < float64 (of_int sec) + float64 (float64 (of_int nsec) / 1000000000)"
  proof
    assume "0 < sec"
    then have "0 < float64 (of_int sec)"
      by (intro float64_pos) simp
    with b show ?thesis by linarith
  next
    assume "0 < nsec"
    then have "0 < float64 (float64 (of_int nsec) / 1000000000)"
      by (intro float64_pos divide_pos_pos) simp_all
    with a show ?thesis by linarith
  qed
  then show ?thesis
    unfolding S by (rule float64_pos)
qed

lemma Seconds_nonpos:
  assumes "d \<le> 0"
  shows "Seconds d \<le> 0"
proof -
  have a: "float64 (of_int (tdiv d Second)) \<le> 0"
    using tdiv_tmod_nonpos(1) [OF assms] by (intro float64_nonpos) simp
  have "float64 (of_int (tmod d Second)) \<le> 0"
    using tdiv_tmod_nonpos(2) [OF assms] by (intro float64_nonpos) simp
  then have "float64 (of_int (tmod d Second)) / 1000000000 \<le> 0"
    by (simp add: divide_le_0_iff)
  then have "float64 (float64 (of_int (tmod d Second)) / 1000000000) \<le> 0"
    by (rule float64_nonpos)
  with a have "float64 (of_int (tdiv d Second)) + float64 (float64 (of_int (tmod d Second)) / 1000000000) \<le> 0"
    by linarith
  then show ?thesis
    unfolding Seconds_def Let_def fadd_def fdiv_def by (rule float64_nonpos)
qed

lemma Ceil_Seconds_le_0_iff: "Ceil (Seconds d) \<le> 0 \<longleftrightarrow> d \<le> 0"
proof
  assume "Ceil (Seconds d) \<le> 0"
  then have "Seconds d \<le> 0"
    by (simp add: Ceil_def ceiling_le_iff)
  then show "d \<le> 0"
    using Seconds_pos [of d] by (cases "0 < d") simp_all
next
  assume "d \<le> 0"
  then have "Seconds d \<le> 0"
    by (rule Seconds_nonpos)
  then show "Ceil (Seconds d) \<le> 0"
    by (simp add: Ceil_def ceiling_le_iff)
qed

lemma div_less_of_less_mult:
  fixes d :: int
  assumes "d < n * 1000000000"
  shows "d div 1000000000 < n"
proof -
  have "0 \<le> d mod 1000000000"
    by simp
  then have "d div 1000000000 * 1000000000 \<le> d"
    using div_mult_mod_eq [of d 1000000000] by linarith
  with assms have "d div 1000000000 * 1000000000 < n * 1000000000"
    by linarith
  then show ?thesis
    by simp
qed

lemma representable_plus_tiny:
  assumes "0 \<le> s" and "s < 2 ^ 23"
  shows "representable (of_int s + 2 powi (- 30))"
proof -
  have "s * 2 ^ 30 + 1 < 2 ^ 53"
    using assms by simp
  moreover have "0 \<le> s * 2 ^ 30 + 1"
    using assms by simp
  ultimately have "\<bar>s * 2 ^ 30 + 1\<bar> < 2 ^ 53"
    by linarith
  moreover have "(of_int s :: rat) + 2 powi (- 30) = of_int (s * 2 ^ 30 + 1) * 2 powi (- 30)"
    by (simp add: power_int_minus field_simps)
  ultimately show ?thesis
    unfolding representable_def by blast
qed

lemma Seconds_unfold:
  assumes "0 \<le> d" and "d div 1000000000 < 2 ^ 53"
  shows "Seconds d =
    float64 (of_int (d div 1000000000) + float64 (of_int (d mod 1000000000) / 1000000000))"
proof -
  have "0 \<le> d div 1000000000"
    using assms(1) by (simp add: pos_imp_zdiv_nonneg_iff)
  with assms(2) have "\<bar>d div 1000000000\<bar> < 2 ^ 53"
    by linarith
  then have s: "float64 (of_int (d div 1000000000)) = of_int (d div 1000000000)"
    by (intro float64_exact representable_of_int)
  have "0 \<le> d mod 1000000000" "d mod 1000000000 < 1000000000"
    by simp_all
  then have "\<bar>d mod 1000000000\<bar> < 2 ^ 53"
    by simp
  then have n: "float64 (of_int (d mod 1000000000)) = of_int (d mod 1000000000)"
    by (intro float64_exact representable_of_int)
  show ?thesis
    using assms(1) by (simp add: Seconds_def Let_def fadd_def fdiv_def tdiv_tmod_nonneg s n)
qed

lemma Seconds_whole:
  assumes "0 \<le> d" and "d div 1000000000 < 2 ^ 53" and "d mod 1000000000 = 0"
  shows "Seconds d = of_int (d div 1000000000)"
proof -
  have "0 \<le> d div 1000000000"
    using assms(1) by (simp add: pos_imp_zdiv_nonneg_iff)
  with assms(2) have "\<bar>d div 1000000000\<bar> < 2 ^ 53"
    by linarith
  then have "float64 (of_int (d div 1000000000)) = of_int (d div 1000000000)"
    by (intro float64_exact representable_of_int)
  then show ?thesis
    by (simp add: Seconds_unfold [OF assms(1,2)] assms(3))
qed

lemma Seconds_fraction:
  assumes "0 \<le> d" and "d div 1000000000 < 2 ^ 53" and "0 < d mod 1000000000"
  shows "of_int (d div 1000000000) \<le> Seconds d"
    and "Seconds d \<le> of_int (d div 1000000000) + 1"
    and "d div 1000000000 < 2 ^ 23 \<Longrightarrow> of_int (d div 1000000000) < Seconds d"
proof -
  define s where "s = d div 1000000000"
  define n where "n = d mod 1000000000"
  define q where "q = float64 (of_int n / 1000000000)"
  have s0: "0 \<le> s"
    using assms(1) by (simp add: s_def pos_imp_zdiv_nonneg_iff)
  have n1: "1 \<le> n" and n2: "n < 1000000000"
    using assms(3) by (simp_all add: n_def)
  have S: "Seconds d = float64 (of_int s + q)"
    by (simp add: Seconds_unfold [OF assms(1,2)] s_def n_def q_def)
  have frac_pos: "(0::rat) < of_int n / 1000000000"
    using n1 by simp
  have "(of_int n :: rat) / 1000000000 \<le> 1"
    using n2 by simp
  moreover have "representable 1"
    using representable_of_int [of 1] by simp
  ultimately have q1: "q \<le> 1"
    unfolding q_def by (intro float64_upper frac_pos)
  have "(1::rat) \<le> of_int n"
    using n1 by simp
  then have "(1::rat) / 1000000000 \<le> of_int n / 1000000000"
    by (simp add: divide_right_mono)
  moreover have "(2::rat) powi (- 30) \<le> 1 / 1000000000"
    by (simp add: power_int_minus field_simps)
  ultimately have "(2::rat) powi (- 30) \<le> of_int n / 1000000000"
    by linarith
  moreover have "representable (2 powi (- 30))"
    unfolding representable_def by (rule exI [of _ 1], rule exI [of _ "- 30"]) simp
  ultimately have q0: "2 powi (- 30) \<le> q"
    unfolding q_def by (intro float64_lower frac_pos)
  have tiny: "(0::rat) < 2 powi (- 30)"
    by simp
  have sum_pos: "0 < of_int s + q"
    using s0 q0 tiny by (smt (verit) of_int_0_le_iff add_nonneg_pos order_less_le_trans)
  have "\<bar>s\<bar> < 2 ^ 53"
    using s0 assms(2) by (simp add: s_def)
  then have rs: "representable (of_int s)"
    by (rule representable_of_int)
  have "of_int s \<le> of_int s + q"
    using q0 tiny by linarith
  then show "of_int (d div 1000000000) \<le> Seconds d"
    unfolding S s_def [symmetric] using rs by (intro float64_lower sum_pos)
  have "\<bar>s + 1\<bar> < 2 ^ 53 \<or> s + 1 = 2 ^ 53"
    using s0 assms(2) unfolding s_def [symmetric] by auto
  then have "representable (of_int (s + 1))"
  proof
    assume "\<bar>s + 1\<bar> < 2 ^ 53"
    then show ?thesis by (rule representable_of_int)
  next
    assume "s + 1 = 2 ^ 53"
    then have "(of_int (s + 1) :: rat) = of_int 1 * 2 powi 53"
      by simp
    then show ?thesis
      unfolding representable_def by (intro exI [of _ 1] exI [of _ 53]) simp
  qed
  moreover have "of_int s + q \<le> of_int (s + 1)"
    using q1 by simp
  ultimately have "float64 (of_int s + q) \<le> of_int (s + 1)"
    by (intro float64_upper sum_pos)
  then show "Seconds d \<le> of_int (d div 1000000000) + 1"
    unfolding S s_def [symmetric] by simp
  assume "d div 1000000000 < 2 ^ 23"
  then have "representable (of_int s + 2 powi (- 30))"
    using s0 by (intro representable_plus_tiny) (simp_all add: s_def)
  moreover have "of_int s + 2 powi (- 30) \<le> of_int s + q"
    using q0 by simp
  ultimately have "of_int s + 2 powi (- 30) \<le> float64 (of_int s + q)"
    by (intro float64_lower sum_pos)
  with tiny show "of_int (d div 1000000000) < Seconds d"
    unfolding S s_def [symmetric] by linarith
qed

lemma exact_ceiling:
  fixes d :: int
  shows "\<lceil>(of_int d :: rat) / 1000000000\<rceil> =
    (if d mod 1000000000 = 0 then d div 1000000000 else d div 1000000000 + 1)"
proof -
  have "\<lceil>(of_int d :: rat) / of_int 1000000000\<rceil> = - ((- d) div 1000000000)"
    by (simp only: ceiling_divide_eq_div)
  also have "\<dots> = (if d mod 1000000000 = 0 then d div 1000000000 else d div 1000000000 + 1)"
    by (simp add: zdiv_zminus1_eq_if)
  finally show ?thesis
    by simp
qed

lemma Ceil_Seconds_exact:
  assumes "0 < d" and "d < 2 ^ 23 * 1000000000"
  shows "Ceil (Seconds d) = \<lceil>(of_int d :: rat) / 1000000000\<rceil>"
proof -
  have s: "d div 1000000000 < 2 ^ 23"
    using assms(2) by (rule div_less_of_less_mult)
  then have s53: "d div 1000000000 < 2 ^ 53"
    by simp
  have d0: "0 \<le> d"
    using assms(1) by simp
  show ?thesis
  proof (cases "d mod 1000000000 = 0")
    case True
    then show ?thesis
      by (simp add: Ceil_def Seconds_whole [OF d0 s53] exact_ceiling)
  next
    case False
    then have pos: "0 < d mod 1000000000"
      by (simp add: less_le)
    have "of_int (d div 1000000000) < Seconds d" and "Seconds d \<le> of_int (d div 1000000000 + 1)"
      using Seconds_fraction [OF d0 s53 pos] s by simp_all
    then have "\<lceil>Seconds d\<rceil> = d div 1000000000 + 1"
      by (intro ceiling_unique) simp_all
    with False show ?thesis
      by (simp add: Ceil_def exact_ceiling)
  qed
qed

lemma Ceil_Seconds_near:
  assumes "0 < d" and "d \<le> maxDuration"
  shows "\<lceil>(of_int d :: rat) / 1000000000\<rceil> - 1 \<le> Ceil (Seconds d)"
    and "Ceil (Seconds d) \<le> \<lceil>(of_int d :: rat) / 1000000000\<rceil>"
proof -
  have "d < 2 ^ 53 * 1000000000"
    using assms(2) by (simp add: maxDuration_def)
  then have s53: "d div 1000000000 < 2 ^ 53"
    by (rule div_less_of_less_mult)
  have d0: "0 \<le> d"
    using assms(1) by simp
  have "\<lceil>(of_int d :: rat) / 1000000000\<rceil> - 1 \<le> Ceil (Seconds d) \<and>
      Ceil (Seconds d) \<le> \<lceil>(of_int d :: rat) / 1000000000\<rceil>"
  proof (cases "d mod 1000000000 = 0")
    case True
    then show ?thesis
      by (simp add: Ceil_def Seconds_whole [OF d0 s53] exact_ceiling)
  next
    case False
    then have pos: "0 < d mod 1000000000"
      by (simp add: less_le)
    have lo: "of_int (d div 1000000000) \<le> Seconds d"
      and hi: "Seconds d \<le> of_int (d div 1000000000 + 1)"
      using Seconds_fraction(1,2) [OF d0 s53 pos] by simp_all
    from lo have "d div 1000000000 \<le> \<lceil>Seconds d\<rceil>"
      by (simp add: le_ceiling_iff) 
    moreover from hi have "\<lceil>Seconds d\<rceil> \<le> d div 1000000000 + 1"
      by (simp only: ceiling_le_iff)
    ultimately show ?thesis
      using False by (simp add: Ceil_def exact_ceiling)
  qed
  then show "\<lceil>(of_int d :: rat) / 1000000000\<rceil> - 1 \<le> Ceil (Seconds d)"
    and "Ceil (Seconds d) \<le> \<lceil>(of_int d :: rat) / 1000000000\<rceil>"
    by simp_all
qed

section \<open>Properties of the answer cache\<close>

lemma cache_cached_at [simp]:
  "cache (cached_at t) ''example.com.|1'' = Some (Cached \<lparr>answer = Slice 0, expired = t\<rparr>)"
  by (simp add: cached_at_def)

lemma int64_id: "- (2 ^ 63) \<le> x \<Longrightarrow> x < 2 ^ 63 \<Longrightarrow> int64 x = x"
  by (simp add: int64_def)

lemma Min_insert_min:
  assumes "finite S"
  shows "Min (insert (min t x) S) = Min (insert t (insert x S))"
proof (cases "S = {}")
  case True
  then show ?thesis by simp
next
  case False
  with assms show ?thesis by (simp add: min.assoc)
qed

lemma minTTL_loop_Min: "minTTL_loop t xs = Min (insert t (TTL ` set xs))"
proof (induction xs arbitrary: t)
  case Nil
  then show ?case by simp
next
  case (Cons x xs)
  have "minTTL_loop t (x # xs) = minTTL_loop (min t (TTL x)) xs"
    by (simp add: min_def)
  also have "\<dots> = Min (insert (min t (TTL x)) (TTL ` set xs))"
    by (rule Cons.IH)
  also have "\<dots> = Min (insert t (insert (TTL x) (TTL ` set xs)))"
    by (rule Min_insert_min) simp
  also have "\<dots> = Min (insert t (TTL ` set (x # xs)))"
    by simp
  finally show ?case .
qed

lemma elems_set_ttls:
  "elems (set_ttls m s t) s = map (\<lambda>x. x\<lparr>TTL := t\<rparr>) (elems m s)"
  by (cases s) (simp_all add: elems_def set_ttls_def)

lemma cacheSet_empty: "elems m ans = [] \<Longrightarrow> cacheSet c m now key ans = c"
  by (simp add: cacheSet_def)

lemma cacheSet_nonempty:
  assumes "elems m ans \<noteq> []"
  shows "cacheSet c m now key ans =
    c\<lparr>cache := (cache c)(key \<mapsto>
      Cached \<lparr>answer = ans,
        expired = now + int64 (Min (TTL ` set (elems m ans)) * 1000000000)\<rparr>)\<rparr>"
proof -
  from assms obtain x xs where xs: "elems m ans = x # xs"
    by (cases "elems m ans") auto
  have "minTTL_loop (TTL x) (x # xs) = Min (TTL ` set (x # xs))"
    by (simp add: minTTL_loop_Min del: minTTL_loop.simps)
  then show ?thesis
    by (simp add: cacheSet_def xs Let_def Add_def Duration_mul_def Second_def del: minTTL_loop.simps)
qed

lemma cacheGet_absent:
  "cache c key = None \<Longrightarrow> cacheGet c m now key = ((NilSlice, False), c, m)"
  by (simp add: cacheGet_def)

lemma Sub_le_0_iff: "Sub t u \<le> 0 \<longleftrightarrow> t \<le> u"
  by (simp add: Sub_def minDuration_def maxDuration_def)

lemma cacheGet_stale:
  assumes "cache c key = Some (Cached e)" and "expired e \<le> now"
  shows "cacheGet c m now key = ((NilSlice, False), c\<lparr>cache := (cache c)(key := None)\<rparr>, m)"
  using assms by (simp add: cacheGet_def Let_def Ceil_Seconds_le_0_iff Sub_le_0_iff)

lemma cacheGet_fresh:
  assumes "cache c key = Some (Cached e)" and "now < expired e"
  shows "cacheGet c m now key =
    ((answer e, True), c, set_ttls m (answer e) (Ceil (Seconds (Sub (expired e) now))))"
  using assms by (simp add: cacheGet_def Let_def Ceil_Seconds_le_0_iff Sub_le_0_iff)

lemma Sub_in_range:
  "minDuration \<le> t - u \<Longrightarrow> t - u \<le> maxDuration \<Longrightarrow> Sub t u = t - u"
  by (simp add: Sub_def)

lemma elems_memory_of [simp]: "elems (memory_of xs) (Slice 0) = xs"
  by (simp add: elems_def memory_of_def)

lemma TTL_answer_ttl [simp]: "TTL (answer_ttl t) = t"
  by (simp add: answer_ttl_def)

lemma ceiling_within_second:
  fixes n k :: int
  assumes "0 \<le> k" and "k < 1000000000"
  shows "\<lceil>(of_int (n * 1000000000 - k) :: rat) / 1000000000\<rceil> = n"
proof (rule ceiling_unique)
  have "(of_int (n * 1000000000 - k) :: rat) / 1000000000 = of_int n - of_int k / 1000000000"
    by (simp add: field_simps)
  moreover have "(0::rat) \<le> of_int k / 1000000000" and "(of_int k :: rat) / 1000000000 < 1"
    using assms by simp_all
  ultimately show "of_int n - 1 < (of_int (n * 1000000000 - k) :: rat) / 1000000000"
    and "(of_int (n * 1000000000 - k) :: rat) / 1000000000 \<le> of_int n"
    by linarith+
qed

lemma ceiling_divide_numeral_rat [simp]:
  "\<lceil>(numeral a :: rat) / numeral b\<rceil> = - (- numeral a div numeral b)"
proof -
  have "\<lceil>(of_int (numeral a) :: rat) / of_int (numeral b)\<rceil> = - (- numeral a div numeral b)"
    by (rule ceiling_divide_eq_div)
  then show ?thesis
    by simp
qed

lemma cache_client0 [simp]: "cache client0 = Map.empty"
  by (simp add: client0_def)

lemma cacheSet_memory_of:
  assumes "xs \<noteq> []"
  shows "cacheSet client0 (memory_of xs) now ''example.com.|1'' (Slice 0) =
    cached_at (now + int64 (Min (TTL ` set xs) * 1000000000))"
  using assms by (simp add: cacheSet_nonempty cached_at_def)

lemma elems_set_ttls_memory_of [simp]:
  "elems (set_ttls (memory_of xs) (Slice 0) t) (Slice 0) = map (\<lambda>x. x\<lparr>TTL := t\<rparr>) xs"
  by (simp add: elems_set_ttls)

lemma map_TTL_update [simp]: "map TTL (map (\<lambda>x. x\<lparr>TTL := t\<rparr>) xs) = map (\<lambda>x. t) xs"
  by simp

lemma int64_seconds:
  assumes "- 9223372036 \<le> n" and "n \<le> 9223372036"
  shows "int64 (n * 1000000000) = n * 1000000000"
  using assms by (intro int64_id) simp_all

lemma Ceil_Seconds_whole:
  assumes "0 < n" and "n \<le> 9223372036"
  shows "Ceil (Seconds (n * 1000000000)) = n"
proof -
  have "n < 2 ^ 53"
    using assms(2) by simp
  then have "Seconds (n * 1000000000) = of_int n"
    using assms(1) Seconds_whole [of "n * 1000000000"] by simp
  then show ?thesis
    by (simp add: Ceil_def)
qed

lemma Ceil_Seconds_2p24: "Ceil (Seconds 16777216000000001) = 16777216"
  by code_simp

lemma Ceil_Seconds_wrapped: "Ceil (Seconds 9223372036709551616) = 9223372037"
  by code_simp

section \<open>Properties of names and cache keys\<close>












section \<open>Properties of the routing table\<close>

lemma split_first_dot:
  assumes "CHR ''.'' \<notin> set l"
  shows "(l @ CHR ''.'' # rest = p @ CHR ''.'' # k) =
    ((p = l \<and> k = rest) \<or> (\<exists>p'. p = l @ CHR ''.'' # p' \<and> rest = p' @ CHR ''.'' # k))"
  using assms
proof (induction l arbitrary: p)
  case Nil
  then show ?case by (cases p) auto
next
  case (Cons x l)
  then show ?case by (cases p) auto
qed

lemma strip_label_no_dot:
  assumes "CHR ''.'' \<notin> set d"
  shows "strip_label d = []"
proof -
  from assms have dw: "dropWhile (\<lambda>ch. ch \<noteq> CHR ''.'') d = []"
    by auto
  show ?thesis
    unfolding strip_label_def by (simp only: dw drop_Nil)
qed

lemma strip_label_split:
  assumes "CHR ''.'' \<in> set d"
  obtains l where "CHR ''.'' \<notin> set l" and "d = l @ CHR ''.'' # strip_label d"
proof -
  let ?P = "\<lambda>ch. ch \<noteq> CHR ''.''"
  from assms have ne: "dropWhile ?P d \<noteq> []"
    by (auto simp: dropWhile_eq_Nil_conv)
  then have "hd (dropWhile ?P d) = CHR ''.''"
    using hd_dropWhile [of ?P d] by simp
  with ne have dw: "dropWhile ?P d = CHR ''.'' # strip_label d"
    by (cases "dropWhile ?P d") (simp_all add: strip_label_def)
  have "d = takeWhile ?P d @ dropWhile ?P d"
    by simp
  then have "d = takeWhile ?P d @ CHR ''.'' # strip_label d"
    by (simp only: dw)
  moreover have "CHR ''.'' \<notin> set (takeWhile ?P d)"
    by (auto dest: set_takeWhileD)
  ultimately show ?thesis
    using that by blast
qed

lemma covers_step:
  "covers k d \<longleftrightarrow> k = d \<or> (if strip_label d = [] then k = ''.'' else covers k (strip_label d))"
proof (cases "CHR ''.'' \<in> set d")
  case False
  then have "d \<noteq> p @ ''.'' @ k" for p
    by auto
  with False show ?thesis
    by (simp add: covers_def strip_label_no_dot)
next
  case True
  then obtain l where l: "CHR ''.'' \<notin> set l" and d: "d = l @ CHR ''.'' # strip_label d"
    by (rule strip_label_split)
  define rest where "rest = strip_label d"
  have d': "d = l @ CHR ''.'' # rest"
    using d by (simp add: rest_def)
  have split: "(d = p @ ''.'' @ k) =
      ((p = l \<and> k = rest) \<or> (\<exists>p'. p = l @ CHR ''.'' # p' \<and> rest = p' @ ''.'' @ k))" for p
    using split_first_dot [OF l, of rest p k] by (simp add: d')
  show ?thesis
  proof (cases "rest = []")
    case True
    then show ?thesis
      unfolding covers_def split rest_def [symmetric] by auto
  next
    case False
    then show ?thesis
      unfolding covers_def [of k d] covers_def [of k rest] split rest_def [symmetric] by auto
  qed
qed

lemma covers_refl [simp]: "covers d d"
  by (simp add: covers_def)

lemma covers_length:
  assumes "covers k d" and "d \<noteq> []"
  shows "length k \<le> length d"
proof -
  have "length k \<le> length (p @ ''.'' @ k)" for p
    by simp
  moreover have "length ''.'' \<le> length d"
    using assms(2) by (cases d) simp_all
  ultimately show ?thesis
    using assms(1) unfolding covers_def by auto
qed

lemma covers_suffix:
  assumes "covers k d" and "d \<noteq> []" and "last d = CHR ''.''"
  shows "suffix k d"
proof -
  from assms(2,3) have "d = butlast d @ ''.''"
    using append_butlast_last_id [of d] by simp
  then have "suffix ''.'' d"
    by (metis suffixI)
  moreover have "suffix k (p @ ''.'' @ k)" for p
    by (metis append.assoc suffixI)
  ultimately show ?thesis
    using assms(1) by (auto simp: covers_def)
qed

lemma covers_same_length:
  assumes "covers k d" and "d \<noteq> []" and "last d = CHR ''.''" and "length k = length d"
  shows "k = d"
proof -
  have "suffix k d"
    using assms(1-3) by (rule covers_suffix)
  then obtain p where "d = p @ k"
    by (auto simp: suffix_def)
  with assms(4) show ?thesis
    by simp
qed

lemma last_strip_label:
  assumes "strip_label d \<noteq> []"
  shows "last (strip_label d) = last d"
proof -
  have "CHR ''.'' \<in> set d"
    using assms strip_label_no_dot by blast
  then obtain l where "d = l @ CHR ''.'' # strip_label d"
    by (rule strip_label_split)
  then have "last d = last (l @ CHR ''.'' # strip_label d)"
    by simp
  also have "\<dots> = last (strip_label d)"
    using assms by simp
  finally show ?thesis
    by simp
qed

lemma covers_root [simp]: "covers k ''.'' \<longleftrightarrow> k = ''.''"
  by (subst covers_step) (auto simp: strip_label_def)

lemma route_root [simp]: "route r ''.'' = r ''.''"
  by (simp add: route.simps [of r "''.''"] split: option.split)

lemma route_found: "r d = Some x \<Longrightarrow> route r d = Some x"
  by (simp add: route.simps [of r d])

lemma route_last_label:
  "r d = None \<Longrightarrow> strip_label d = [] \<Longrightarrow> route r d = r ''.''"
  by (cases "d = ''.''") (simp_all add: route.simps [of r d])

lemma route_parent:
  "r d = None \<Longrightarrow> d \<noteq> ''.'' \<Longrightarrow> strip_label d \<noteq> [] \<Longrightarrow> route r d = route r (strip_label d)"
  by (simp add: route.simps [of r d])

lemma covers_last_label: "strip_label d = [] \<Longrightarrow> covers k d \<longleftrightarrow> k = d \<or> k = ''.''"
  using covers_step [of k d] by simp

lemma covers_parent: "strip_label d \<noteq> [] \<Longrightarrow> covers k d \<longleftrightarrow> k = d \<or> covers k (strip_label d)"
  using covers_step [of k d] by simp

lemma route_None_iff: "route r d = None \<longleftrightarrow> (\<forall>k. covers k d \<longrightarrow> r k = None)"
proof (induction r d rule: route.induct)
  case (1 r d)
  show ?case
  proof (cases "r d")
    case (Some x)
    then have "route r d \<noteq> None"
      by (simp add: route_found)
    moreover have "covers d d \<and> r d \<noteq> None"
      using Some by simp
    ultimately show ?thesis
      by auto
  next
    case None
    show ?thesis
    proof (cases "strip_label d = []")
      case True
      have "(\<forall>k. covers k d \<longrightarrow> r k = None) \<longleftrightarrow> r ''.'' = None"
        using None by (auto simp: covers_last_label [OF True])
      then show ?thesis
        by (simp add: route_last_label [of r d, OF None True])
    next
      case False
      then have root: "d \<noteq> ''.''"
        by (auto simp: strip_label_def)
      have "(\<forall>k. covers k d \<longrightarrow> r k = None) \<longleftrightarrow> (\<forall>k. covers k (strip_label d) \<longrightarrow> r k = None)"
        using None by (auto simp: covers_parent [OF False])
      then show ?thesis
        using "1.IH" [OF None root False] by (simp add: route_parent [of r d, OF None root False])
    qed
  qed
qed

lemma longest_match_self:
  assumes "d \<noteq> []" and "last d = CHR ''.''" and "r d \<noteq> None"
  shows "longest_match r d k \<longleftrightarrow> k = d"
proof
  assume "longest_match r d k"
  then have k: "covers k d" and mx: "\<forall>k'. covers k' d \<and> r k' \<noteq> None \<longrightarrow> length k' \<le> length k"
    by (simp_all add: longest_match_def)
  from mx assms(3) have "length d \<le> length k"
    by simp
  moreover have "length k \<le> length d"
    using k assms(1) by (rule covers_length)
  ultimately show "k = d"
    using covers_same_length [OF k assms(1,2)] by simp
next
  assume "k = d"
  then show "longest_match r d k"
    using assms(3) covers_length [OF _ assms(1)] by (simp add: longest_match_def)
qed

lemma longest_match_last_label:
  assumes "r d = None" and "strip_label d = []"
  shows "longest_match r d k \<longleftrightarrow> k = ''.'' \<and> r ''.'' \<noteq> None"
  using assms(1) unfolding longest_match_def covers_last_label [OF assms(2)] by auto

lemma longest_match_parent:
  assumes "r d = None" and "strip_label d \<noteq> []"
  shows "longest_match r d k \<longleftrightarrow> longest_match r (strip_label d) k"
proof -
  have a: "covers k' d \<and> r k' \<noteq> None \<longleftrightarrow> covers k' (strip_label d) \<and> r k' \<noteq> None" for k'
    using assms(1) by (auto simp: covers_parent [OF assms(2)])
  have "longest_match r d k \<longleftrightarrow>
      (covers k d \<and> r k \<noteq> None) \<and> (\<forall>k'. covers k' d \<and> r k' \<noteq> None \<longrightarrow> length k' \<le> length k)"
    by (simp add: longest_match_def)
  also have "\<dots> \<longleftrightarrow> (covers k (strip_label d) \<and> r k \<noteq> None) \<and>
      (\<forall>k'. covers k' (strip_label d) \<and> r k' \<noteq> None \<longrightarrow> length k' \<le> length k)"
    by (simp only: a)
  also have "\<dots> \<longleftrightarrow> longest_match r (strip_label d) k"
    by (simp add: longest_match_def)
  finally show ?thesis .
qed

lemma route_Some_iff:
  assumes "d \<noteq> []" and "last d = CHR ''.''"
  shows "route r d = Some h \<longleftrightarrow> (\<exists>k. longest_match r d k \<and> r k = Some h)"
  using assms
proof (induction r d rule: route.induct)
  case (1 r d)
  note fq = "1.prems"
  show ?case
  proof (cases "r d")
    case (Some x)
    then have "r d \<noteq> None"
      by simp
    then have "longest_match r d k \<longleftrightarrow> k = d" for k
      by (rule longest_match_self [OF fq])
    moreover have "route r d = Some x"
      using Some by (rule route_found)
    ultimately show ?thesis
      using Some by simp
  next
    case None
    show ?thesis
    proof (cases "strip_label d = []")
      case True
      show ?thesis
        unfolding route_last_label [of r d, OF None True] longest_match_last_label [of r d, OF None True]
        by auto
    next
      case False
      then have root: "d \<noteq> ''.''"
        by (auto simp: strip_label_def)
      have "last (strip_label d) = CHR ''.''"
        using last_strip_label [OF False] fq(2) by simp
      then show ?thesis
        using "1.IH" [OF None root False False]
        by (simp only: route_parent [of r d, OF None root False] longest_match_parent [of r d, OF None False])
    qed
  qed
qed

section \<open>Properties of the dispatcher\<close>

lemma TypeA_neq_TypeAAAA [simp]: "TypeA \<noteq> TypeAAAA" "TypeAAAA \<noteq> TypeA"
  by (simp_all add: TypeA_def TypeAAAA_def)

lemma Query_staticIpV4:
  assumes "staticIpV4 c (Fqdn name) = Some ip"
  shows "Query c m tg ts name TypeA =
    (Slice (next_free m), c,
     m\<lparr>arrays := (arrays m)(next_free m :=
          [\<lparr>Name = Fqdn name, Type = TypeA, TTL = 60, Data = ip\<rparr>]),
       next_free := Suc (next_free m)\<rparr>)"
  using assms by (simp add: Query_def Let_def alloc_def)

lemma Query_staticIpV6:
  assumes "staticIpV6 c (Fqdn name) = Some ip"
  shows "Query c m tg ts name TypeAAAA =
    (Slice (next_free m), c,
     m\<lparr>arrays := (arrays m)(next_free m :=
          [\<lparr>Name = Fqdn name, Type = TypeAAAA, TTL = 60, Data = ip\<rparr>]),
       next_free := Suc (next_free m)\<rparr>)"
  using assms by (simp add: Query_def Let_def alloc_def)

lemma cacheGet_miss:
  assumes "\<not> (\<exists>e. cache c key = Some (Cached e) \<and> now < expired e)"
  shows "cacheGet c m now key = ((NilSlice, False), c\<lparr>cache := (cache c)(key := None)\<rparr>, m)"
proof (cases "cache c key")
  case None
  then have "(cache c)(key := None) = cache c"
    by (simp add: fun_upd_idem_iff)
  with None show ?thesis
    by (simp add: cacheGet_absent)
next
  case (Some v)
  show ?thesis
  proof (cases v)
    case (Cached e)
    with Some assms have "expired e \<le> now"
      by auto
    with Some Cached show ?thesis
      by (simp add: cacheGet_stale)
  next
    case Foreign
    with Some show ?thesis
      by (simp add: cacheGet_def)
  qed
qed

lemma cacheGet_found_iff:
  "fst (cacheGet c m now key) = (NilSlice, False) \<longleftrightarrow>
     \<not> (\<exists>e. cache c key = Some (Cached e) \<and> now < expired e)"
proof (cases "\<exists>e. cache c key = Some (Cached e) \<and> now < expired e")
  case True
  then obtain e where "cache c key = Some (Cached e)" "now < expired e"
    by blast
  then have "fst (cacheGet c m now key) = (answer e, True)"
    by (simp add: cacheGet_fresh)
  with True show ?thesis
    by simp
next
  case False
  then show ?thesis
    by (simp add: cacheGet_miss)
qed

lemma cache_delete_absent: "cache c key = None \<Longrightarrow> c\<lparr>cache := (cache c)(key := None)\<rparr> = c"
  by (simp add: fun_upd_idem_iff)

lemma static_None:
  assumes "qtype = TypeA \<longrightarrow> v4 = None" and "qtype = TypeAAAA \<longrightarrow> v6 = None"
  shows "(if qtype = TypeA then v4 else if qtype = TypeAAAA then v6 else None) = None"
  using assms by simp

lemma Query_hit:
  assumes "qtype = TypeA \<longrightarrow> staticIpV4 c (Fqdn name) = None"
    and "qtype = TypeAAAA \<longrightarrow> staticIpV6 c (Fqdn name) = None"
    and "cache c (cacheKey (Fqdn name) qtype) = Some (Cached e)" and "tg < expired e"
  shows "Query c m tg ts name qtype =
    (answer e, c, set_ttls m (answer e) (Ceil (Seconds (Sub (expired e) tg))))"
  by (simp add: Query_def Let_def static_None [OF assms(1,2)] cacheGet_fresh [OF assms(3,4)])

lemma Query_miss_route:
  assumes "qtype = TypeA \<longrightarrow> staticIpV4 c (Fqdn name) = None"
    and "qtype = TypeAAAA \<longrightarrow> staticIpV6 c (Fqdn name) = None"
    and "\<not> (\<exists>e. cache c (cacheKey (Fqdn name) qtype) = Some (Cached e) \<and> tg < expired e)"
    and "route (router c) (Fqdn name) = Some cli" and "cli (Fqdn name) qtype m = (ans, m')"
  shows "Query c m tg ts name qtype =
    (ans,
     cacheSet (c\<lparr>cache := (cache c)(cacheKey (Fqdn name) qtype := None)\<rparr>) m' ts
       (cacheKey (Fqdn name) qtype) ans,
     m')"
  using assms(4,5)
  by (simp add: Query_def Let_def static_None [OF assms(1,2)] cacheGet_miss [OF assms(3)])

lemma Query_miss_no_route:
  assumes "qtype = TypeA \<longrightarrow> staticIpV4 c (Fqdn name) = None"
    and "qtype = TypeAAAA \<longrightarrow> staticIpV6 c (Fqdn name) = None"
    and "\<not> (\<exists>e. cache c (cacheKey (Fqdn name) qtype) = Some (Cached e) \<and> tg < expired e)"
    and "route (router c) (Fqdn name) = None"
  shows "Query c m tg ts name qtype =
    (NilSlice, c\<lparr>cache := (cache c)(cacheKey (Fqdn name) qtype := None)\<rparr>, m)"
  using assms(4)
  by (simp add: Query_def Let_def static_None [OF assms(1,2)] cacheGet_miss [OF assms(3)])



section \<open>The examples evaluated\<close>

lemma Fqdn_examples:
  "Fqdn ''www.example.com'' = ''www.example.com.''"
  "Fqdn ''static.example.com'' = ''static.example.com.''"
  "Fqdn ''www.example.com.'' = ''www.example.com.''"
  "Fqdn ''other.org.'' = ''other.org.''"
  "Fqdn ''v6.example.com'' = ''v6.example.com.''"
  by (simp_all add: Fqdn_def IsFqdn_def)

lemma cacheKey_examples:
  "cacheKey ''www.example.com.'' TypeA = ''www.example.com.|1''"
  "cacheKey ''static.example.com.'' TypeAAAA = ''static.example.com.|28''"
  "cacheKey ''other.org.'' TypeA = ''other.org.|1''"
  by (simp_all add: cacheKey_def Itoa_def TypeA_def TypeAAAA_def digits.simps digit_def)

lemma route_client1:
  "route (router client1) ''www.example.com.'' = Some upstream0"
  "route (router client1) ''static.example.com.'' = Some upstream0"
  "route (router client1) ''other.org.'' = None"
  by (simp_all add: client1_def route.simps strip_label_def)

lemma client1_fields [simp]:
  "cache client1 = Map.empty"
  "staticIpV4 client1 = [''static.example.com.'' \<mapsto> ''10.0.0.1'']"
  "staticIpV6 client1 = [''v6.example.com.'' \<mapsto> ''2001:db8::1'']"
  by (simp_all add: client1_def)

lemma client2_fields [simp]:
  "cache client2 =
     [''www.example.com.|1'' \<mapsto> Cached \<lparr>answer = Slice 0, expired = 300000000000\<rparr>]"
  "staticIpV4 client2 = staticIpV4 client1" "staticIpV6 client2 = staticIpV6 client1"
  "router client2 = router client1"
  by (simp_all add: client2_def)


lemma upstream0_memory0:
  "upstream0 name qtype memory0 =
     (Slice 0,
      \<lparr>arrays = (\<lambda>a. [])(0 := [\<lparr>Name = name, Type = qtype, TTL = 300, Data = ''93.184.216.34''\<rparr>]),
       next_free = 1\<rparr>)"
  by (simp add: upstream0_def alloc_def memory0_def)

lemma route_client3: "route (router client3) ''www.example.com.'' = Some upstream_empty"
  by (simp add: client3_def route.simps strip_label_def)

lemma client3_fields [simp]:
  "cache client3 = Map.empty" "staticIpV4 client3 = Map.empty" "staticIpV6 client3 = Map.empty"
  by (simp_all add: client3_def)

lemma client4_fields [simp]:
  "cache client4 =
     [''static.example.com.|28'' \<mapsto> Cached \<lparr>answer = Slice 0, expired = 300000000000\<rparr>]"
  "staticIpV4 client4 = staticIpV4 client1" "staticIpV6 client4 = staticIpV6 client1"
  "router client4 = router client1"
  by (simp_all add: client4_def)

lemma upstream0_static: "upstream0 ''static.example.com.'' TypeAAAA memory0 = (Slice 0, memory2)"
  by (simp add: upstream0_def alloc_def memory0_def memory2_def)



lemma cached_at_fields [simp]:
  "router (cached_at t) = Map.empty" "staticIpV4 (cached_at t) = Map.empty"
  "staticIpV6 (cached_at t) = Map.empty"
  by (simp_all add: cached_at_def client0_def)

lemma route_empty [simp]: "route Map.empty d = None"
  by (induction "Map.empty :: string \<rightharpoonup> 'h" d rule: route.induct)
    (simp add: route.simps [of Map.empty])

lemma router_AB_dom:
  "router_AB k \<noteq> None \<longleftrightarrow> k = ''example.com.'' \<or> k = ''mail.example.com.''"
  by (auto simp: router_AB_def add_def)

lemma router_AB_values:
  "router_AB ''example.com.'' = Some ''A''" "router_AB ''mail.example.com.'' = Some ''B''"
  by (simp_all add: router_AB_def add_def)

section \<open>The claims\<close>



text \<open>
  Claim C2, for the routing table modelled from the spec. For a queried name that ends in
  a dot, \<^verbatim>\<open>route\<close> returns handle \<open>h\<close> exactly when \<open>h\<close> is bound to the longest configured domain
  that covers the name, and returns none exactly when no configured domain covers it.
  Every covering domain is a suffix of the name. A name that is itself configured is routed
  to its own handle, in particular straight after \<^verbatim>\<open>add\<close>.
\<close>

theorem C2_route_longest_suffix:
  assumes "d \<noteq> []" and "last d = CHR ''.''"
  shows "(route r d = Some h \<longleftrightarrow> (\<exists>k. longest_match r d k \<and> r k = Some h)) \<and>
    (route r d = None \<longleftrightarrow> (\<forall>k. covers k d \<longrightarrow> r k = None)) \<and>
    (\<forall>k. covers k d \<longrightarrow> suffix k d) \<and>
    (r d = Some h \<longrightarrow> route r d = Some h) \<and>
    route (add r d h) d = Some h"
proof (intro conjI allI impI)
  show "route r d = Some h \<longleftrightarrow> (\<exists>k. longest_match r d k \<and> r k = Some h)"
    using assms by (rule route_Some_iff)
  show "route r d = None \<longleftrightarrow> (\<forall>k. covers k d \<longrightarrow> r k = None)"
    by (rule route_None_iff)
  show "suffix k d" if "covers k d" for k
    using that assms by (rule covers_suffix)
  show "route r d = Some h" if "r d = Some h"
    using that by (rule route_found)
  show "route (add r d h) d = Some h"
    by (rule route_found) (simp add: add_def)
qed

text \<open>
  The theorem at the table with \<open>example.com.\<close> bound to A and \<open>mail.example.com.\<close> bound
  to B, the example of the spec.
\<close>

theorem C2_route_longest_suffix_witness:
  "route router_AB ''x.mail.example.com.'' = Some ''B'' \<and>
   route router_AB ''example.com.'' = Some ''A'' \<and>
   route router_AB ''other.com.'' = None"
proof -
  have fq: "''x.mail.example.com.'' \<noteq> []" "last ''x.mail.example.com.'' = CHR ''.''"
    "''example.com.'' \<noteq> []" "last ''example.com.'' = CHR ''.''"
    "''other.com.'' \<noteq> []" "last ''other.com.'' = CHR ''.''"
    by simp_all
  have c: "covers ''mail.example.com.'' ''x.mail.example.com.''"
    unfolding covers_def by (intro disjI2 conjI exI [of _ "''x''"]) simp_all
  have "longest_match router_AB ''x.mail.example.com.'' ''mail.example.com.''"
    unfolding longest_match_def
  proof (intro conjI allI impI)
    show "covers ''mail.example.com.'' ''x.mail.example.com.''"
      by (rule c)
    show "router_AB ''mail.example.com.'' \<noteq> None"
      by (simp add: router_AB_values)
    fix k'
    assume "covers k' ''x.mail.example.com.'' \<and> router_AB k' \<noteq> None"
    then have "k' = ''example.com.'' \<or> k' = ''mail.example.com.''"
      by (simp only: router_AB_dom)
    then show "length k' \<le> length ''mail.example.com.''"
      by (rule disjE) simp_all
  qed
  then have lm: "longest_match router_AB ''x.mail.example.com.'' ''mail.example.com.'' \<and>
      router_AB ''mail.example.com.'' = Some ''B''"
    using router_AB_values(2) by (intro conjI)
  have ex: "\<exists>k. longest_match router_AB ''x.mail.example.com.'' k \<and> router_AB k = Some ''B''"
    by (rule exI [where x = "''mail.example.com.''"]) (rule lm)
  have x: "route router_AB ''x.mail.example.com.'' = Some ''B''"
    by (rule C2_route_longest_suffix [OF fq(1,2), where r = router_AB and h = "''B''",
        THEN conjunct1, THEN iffD2, OF ex])
  have e: "route router_AB ''example.com.'' = Some ''A''"
    by (rule C2_route_longest_suffix [OF fq(3,4), where r = router_AB and h = "''A''",
        THEN conjunct2, THEN conjunct2, THEN conjunct2, THEN conjunct1, THEN mp,
        OF router_AB_values(1)])
  have cov: "covers k ''other.com.'' \<longleftrightarrow> k = ''other.com.'' \<or> k = ''com.'' \<or> k = ''.''" for k
    by (simp add: covers_step [of k "''other.com.''"] covers_step [of k "''com.''"] strip_label_def)
  have none: "\<forall>k. covers k ''other.com.'' \<longrightarrow> router_AB k = None"
  proof (intro allI impI)
    fix k
    assume "covers k ''other.com.''"
    then have "k = ''other.com.'' \<or> k = ''com.'' \<or> k = ''.''"
      by (simp only: cov)
    then have "\<not> (k = ''example.com.'' \<or> k = ''mail.example.com.'')"
      by (elim disjE) simp_all
    then show "router_AB k = None"
      by (simp only: router_AB_dom [symmetric] not_not)
  qed
  have n: "route router_AB ''other.com.'' = None"
    by (rule C2_route_longest_suffix [OF fq(5,6), where r = router_AB,
        THEN conjunct2, THEN conjunct1, THEN iffD2, OF none])
  from x e n show ?thesis
    by (intro conjI)
qed

text \<open>
  Claim C3, as amended. For an entry stored under a key, \<^verbatim>\<open>cacheGet\<close> takes as the remaining
  time-to-live the ceiling of the binary64 number of seconds that \<^verbatim>\<open>Duration.Seconds\<close> gives
  for \<open>expired - now\<close>. That value is at most 0 exactly when \<open>expired \<le> now\<close>, the expiry
  instant included; the entry is then deleted and not-found is reported, and a later get
  for the key, at any instant and with no insertion in between, reports not-found again.
  When \<open>now < expired\<close>, found is reported with the stored slice, the cache is unchanged, and
  every element of the slice has its TTL set to that one value and is otherwise as it was.
  The value is the exact ceiling of \<open>(expired - now) / 10\<^sup>9\<close> whenever the remaining time is
  below \<open>2\<^sup>2\<^sup>3\<close> seconds; for every remaining time that fits a duration it is the exact
  ceiling or one less.
\<close>

theorem C3_cacheGet_remaining_ttl:
  assumes "cache c key = Some (Cached e)"
  shows "(Ceil (Seconds (Sub (expired e) now)) \<le> 0) = (expired e \<le> now) \<and>
    (expired e \<le> now \<longrightarrow>
       cacheGet c m now key = ((NilSlice, False), c\<lparr>cache := (cache c)(key := None)\<rparr>, m) \<and>
       fst (cacheGet (c\<lparr>cache := (cache c)(key := None)\<rparr>) m' now' key) = (NilSlice, False)) \<and>
    (now < expired e \<longrightarrow>
       cacheGet c m now key =
         ((answer e, True), c, set_ttls m (answer e) (Ceil (Seconds (Sub (expired e) now)))) \<and>
       elems (set_ttls m (answer e) (Ceil (Seconds (Sub (expired e) now)))) (answer e) =
         map (\<lambda>x. x\<lparr>TTL := Ceil (Seconds (Sub (expired e) now))\<rparr>) (elems m (answer e))) \<and>
    (now < expired e \<and> expired e - now < 2 ^ 23 * 1000000000 \<longrightarrow>
       Ceil (Seconds (Sub (expired e) now)) = \<lceil>(of_int (expired e - now) :: rat) / 1000000000\<rceil>) \<and>
    (now < expired e \<and> expired e - now \<le> maxDuration \<longrightarrow>
       \<lceil>(of_int (expired e - now) :: rat) / 1000000000\<rceil> - 1 \<le> Ceil (Seconds (Sub (expired e) now)) \<and>
       Ceil (Seconds (Sub (expired e) now)) \<le> \<lceil>(of_int (expired e - now) :: rat) / 1000000000\<rceil>)"
proof (intro conjI impI)
  show "(Ceil (Seconds (Sub (expired e) now)) \<le> 0) = (expired e \<le> now)"
    by (simp add: Ceil_Seconds_le_0_iff Sub_le_0_iff)
next
  assume "expired e \<le> now"
  with assms show "cacheGet c m now key = ((NilSlice, False), c\<lparr>cache := (cache c)(key := None)\<rparr>, m)"
    by (rule cacheGet_stale)
next
  show "fst (cacheGet (c\<lparr>cache := (cache c)(key := None)\<rparr>) m' now' key) = (NilSlice, False)"
    by (simp add: cacheGet_absent)
next
  assume "now < expired e"
  with assms show "cacheGet c m now key =
      ((answer e, True), c, set_ttls m (answer e) (Ceil (Seconds (Sub (expired e) now))))"
    by (rule cacheGet_fresh)
next
  show "elems (set_ttls m (answer e) (Ceil (Seconds (Sub (expired e) now)))) (answer e) =
      map (\<lambda>x. x\<lparr>TTL := Ceil (Seconds (Sub (expired e) now))\<rparr>) (elems m (answer e))"
    by (rule elems_set_ttls)
next
  assume a: "now < expired e \<and> expired e - now < 2 ^ 23 * 1000000000"
  then have "Sub (expired e) now = expired e - now"
    by (intro Sub_in_range) (simp_all add: minDuration_def maxDuration_def)
  with a show "Ceil (Seconds (Sub (expired e) now)) = \<lceil>(of_int (expired e - now) :: rat) / 1000000000\<rceil>"
    by (simp add: Ceil_Seconds_exact)
next
  assume a: "now < expired e \<and> expired e - now \<le> maxDuration"
  then have s: "Sub (expired e) now = expired e - now"
    by (intro Sub_in_range) (simp_all add: minDuration_def)
  from a have p: "0 < expired e - now"
    by simp
  show "\<lceil>(of_int (expired e - now) :: rat) / 1000000000\<rceil> - 1 \<le> Ceil (Seconds (Sub (expired e) now))"
    unfolding s using a p by (intro Ceil_Seconds_near(1)) simp_all
  show "Ceil (Seconds (Sub (expired e) now)) \<le> \<lceil>(of_int (expired e - now) :: rat) / 1000000000\<rceil>"
    unfolding s using a p by (intro Ceil_Seconds_near(2)) simp_all
qed

text \<open>
  The theorem at an entry that expires at 5 s, holding two answers: a get at 1.5 s finds it
  and sets both TTLs to 4; a get at 5 s reports not-found and deletes the entry.
\<close>

theorem C3_cacheGet_remaining_ttl_witness:
  "cache (cached_at 5000000000) ''example.com.|1'' =
     Some (Cached \<lparr>answer = Slice 0, expired = 5000000000\<rparr>) \<and>
   fst (cacheGet (cached_at 5000000000) (memory_of [answer_ttl 5, answer_ttl 30]) 1500000000
     ''example.com.|1'') = (Slice 0, True) \<and>
   map TTL (elems (snd (snd (cacheGet (cached_at 5000000000) (memory_of [answer_ttl 5, answer_ttl 30])
     1500000000 ''example.com.|1''))) (Slice 0)) = [4, 4] \<and>
   fst (cacheGet (cached_at 5000000000) (memory_of [answer_ttl 5, answer_ttl 30]) 5000000000
     ''example.com.|1'') = (NilSlice, False) \<and>
   cache (fst (snd (cacheGet (cached_at 5000000000) (memory_of [answer_ttl 5, answer_ttl 30])
     5000000000 ''example.com.|1''))) ''example.com.|1'' = None"
proof -
  let ?m = "memory_of [answer_ttl 5, answer_ttl 30]"
  let ?e = "\<lparr>answer = Slice 0, expired = 5000000000\<rparr>"
  have h: "cache (cached_at 5000000000) ''example.com.|1'' = Some (Cached ?e)"
    by simp
  note fresh = C3_cacheGet_remaining_ttl [OF h, where now = 1500000000 and m = ?m]
  note stale = C3_cacheGet_remaining_ttl [OF h, where now = 5000000000 and m = ?m]
  from fresh have t: "Ceil (Seconds (Sub 5000000000 1500000000)) = 4"
    by simp
  from fresh have g: "cacheGet (cached_at 5000000000) ?m 1500000000 ''example.com.|1'' =
      ((Slice 0, True), cached_at 5000000000, set_ttls ?m (Slice 0) 4)"
    unfolding t by simp
  from stale have s: "cacheGet (cached_at 5000000000) ?m 5000000000 ''example.com.|1'' =
      ((NilSlice, False),
       (cached_at 5000000000)\<lparr>cache := (cache (cached_at 5000000000))(''example.com.|1'' := None)\<rparr>, ?m)"
    by simp
  show ?thesis
    unfolding g s by simp
qed

text \<open>
  Claim C3 as stated fails: an answer with TTL 16777217 is set at instant 0 and read
  999999999 ns later. The remaining time is 16777216.000000001 s, whose ceiling is 16777217;
  the sum \<open>16777216 + 10\<^sup>-\<^sup>9\<close> rounds to 16777216 in binary64, and that is the TTL written.
\<close>

theorem C3_exact_ceiling_counterexample:
  "cacheSet client0 (memory_of [answer_ttl 16777217]) 0 ''example.com.|1'' (Slice 0) =
     cached_at 16777217000000000 \<and>
   \<lceil>(of_int (16777217000000000 - 999999999) :: rat) / 1000000000\<rceil> = 16777217 \<and>
   fst (cacheGet (cached_at 16777217000000000) (memory_of [answer_ttl 16777217]) 999999999
     ''example.com.|1'') = (Slice 0, True) \<and>
   map TTL (elems (snd (snd (cacheGet (cached_at 16777217000000000) (memory_of [answer_ttl 16777217])
     999999999 ''example.com.|1''))) (Slice 0)) = [16777216]"
proof -
  have "cacheSet client0 (memory_of [answer_ttl 16777217]) 0 ''example.com.|1'' (Slice 0) =
      cached_at 16777217000000000"
    by (simp add: cacheSet_memory_of int64_def)
  moreover have "\<lceil>(of_int (16777217000000000 - 999999999) :: rat) / 1000000000\<rceil> = 16777217"
    by simp
  moreover have "Sub 16777217000000000 999999999 = 16777216000000001"
    by (simp add: Sub_def minDuration_def maxDuration_def)
  then have "cacheGet (cached_at 16777217000000000) (memory_of [answer_ttl 16777217]) 999999999
      ''example.com.|1'' =
      ((Slice 0, True), cached_at 16777217000000000,
       set_ttls (memory_of [answer_ttl 16777217]) (Slice 0) 16777216)"
    by (simp add: cacheGet_fresh [where e = "\<lparr>answer = Slice 0, expired = 16777217000000000\<rparr>"]
        Ceil_Seconds_2p24)
  ultimately show ?thesis
    by simp
qed

text \<open>
  Claim C4, as amended. For a non-empty answer list whose minimum TTL lies within
  9223372036 seconds of zero, the range in which \<^verbatim>\<open>time.Duration(minTTL) * time.Second\<close> does not
  overflow a 64-bit duration, \<^verbatim>\<open>cacheSet\<close> stores the slice under the key with expiry
  \<open>now + minTTL * 10\<^sup>9\<close>. When the minimum is positive, a get at the same instant finds the
  entry and sets the TTL of every answer to the minimum; when it is moreover below \<open>2\<^sup>2\<^sup>3\<close>,
  so does every get less than a second later.
\<close>

theorem C4_cacheSet_min_ttl:
  fixes m :: memory and ans :: slice
  defines "minTTL \<equiv> Min (TTL ` set (elems m ans))"
  assumes "elems m ans \<noteq> []" and "- 9223372036 \<le> minTTL" and "minTTL \<le> 9223372036"
  shows "cacheSet c m now key ans =
      c\<lparr>cache := (cache c)(key \<mapsto>
        Cached \<lparr>answer = ans, expired = now + minTTL * 1000000000\<rparr>)\<rparr> \<and>
    (0 < minTTL \<longrightarrow>
       cacheGet (cacheSet c m now key ans) m now key =
         ((ans, True), cacheSet c m now key ans, set_ttls m ans minTTL) \<and>
       elems (set_ttls m ans minTTL) ans = map (\<lambda>x. x\<lparr>TTL := minTTL\<rparr>) (elems m ans)) \<and>
    (0 < minTTL \<and> minTTL < 2 ^ 23 \<and> now \<le> now' \<and> now' < now + 1000000000 \<longrightarrow>
       cacheGet (cacheSet c m now key ans) m now' key =
         ((ans, True), cacheSet c m now key ans, set_ttls m ans minTTL))"
proof -
  let ?e = "\<lparr>answer = ans, expired = now + minTTL * 1000000000\<rparr>"
  have set: "cacheSet c m now key ans = c\<lparr>cache := (cache c)(key \<mapsto> Cached ?e)\<rparr>"
    using assms(2-4) by (simp add: cacheSet_nonempty int64_seconds minTTL_def)
  have entry: "cache (cacheSet c m now key ans) key = Some (Cached ?e)"
    by (simp add: set)
  have fresh: "cacheGet (cacheSet c m now key ans) m t key =
      ((ans, True), cacheSet c m now key ans, set_ttls m ans minTTL)"
    if pos: "0 < minTTL" and d: "Ceil (Seconds (Sub (now + minTTL * 1000000000) t)) = minTTL"
      and t: "t < now + minTTL * 1000000000" for t
    using cacheGet_fresh [OF entry, of t m] t d by simp
  have same: "cacheGet (cacheSet c m now key ans) m now key =
      ((ans, True), cacheSet c m now key ans, set_ttls m ans minTTL)" if pos: "0 < minTTL"
  proof (rule fresh [OF pos])
    have "Sub (now + minTTL * 1000000000) now = minTTL * 1000000000"
      using assms(3,4) by (intro trans [OF Sub_in_range]) (simp_all add: minDuration_def maxDuration_def)
    then show "Ceil (Seconds (Sub (now + minTTL * 1000000000) now)) = minTTL"
      using pos assms(4) by (simp add: Ceil_Seconds_whole)
    show "now < now + minTTL * 1000000000"
      using pos by simp
  qed
  have later: "cacheGet (cacheSet c m now key ans) m now' key =
      ((ans, True), cacheSet c m now key ans, set_ttls m ans minTTL)"
    if pos: "0 < minTTL" and small: "minTTL < 2 ^ 23" and ge: "now \<le> now'"
      and lt: "now' < now + 1000000000"
  proof (rule fresh [OF pos])
    define k where "k = now' - now"
    have k: "0 \<le> k" "k < 1000000000"
      using ge lt by (simp_all add: k_def)
    have diff: "now + minTTL * 1000000000 - now' = minTTL * 1000000000 - k"
      by (simp add: k_def)
    have lo: "0 < minTTL * 1000000000 - k"
      using pos k by linarith
    have hi: "minTTL * 1000000000 - k < 2 ^ 23 * 1000000000"
      using small k by simp
    have "Sub (now + minTTL * 1000000000) now' = minTTL * 1000000000 - k"
      unfolding diff [symmetric] using lo hi diff
      by (intro Sub_in_range) (simp_all add: minDuration_def maxDuration_def)
    then show "Ceil (Seconds (Sub (now + minTTL * 1000000000) now')) = minTTL"
      using Ceil_Seconds_exact [OF lo hi] ceiling_within_second [OF k, of minTTL] by simp
    show "now' < now + minTTL * 1000000000"
      using lo diff by linarith
  qed
  show ?thesis
    using set same later by (simp add: elems_set_ttls)
qed

text \<open>
  The theorem at the answers with TTL 5 and 30, set at instant 1000: the entry expires at
  5000001000, and a get at instant 1000 returns both answers with TTL 5.
\<close>

theorem C4_cacheSet_min_ttl_witness:
  "elems (memory_of [answer_ttl 5, answer_ttl 30]) (Slice 0) \<noteq> [] \<and>
   Min (TTL ` set (elems (memory_of [answer_ttl 5, answer_ttl 30]) (Slice 0))) = 5 \<and>
   cacheSet client0 (memory_of [answer_ttl 5, answer_ttl 30]) 1000 ''example.com.|1'' (Slice 0) =
     cached_at 5000001000 \<and>
   fst (cacheGet (cached_at 5000001000) (memory_of [answer_ttl 5, answer_ttl 30]) 1000
     ''example.com.|1'') = (Slice 0, True) \<and>
   map TTL (elems (snd (snd (cacheGet (cached_at 5000001000) (memory_of [answer_ttl 5, answer_ttl 30])
     1000 ''example.com.|1''))) (Slice 0)) = [5, 5] \<and>
   map TTL (elems (snd (snd (cacheGet (cached_at 5000001000) (memory_of [answer_ttl 5, answer_ttl 30])
     1000000999 ''example.com.|1''))) (Slice 0)) = [5, 5]"
proof -
  let ?m = "memory_of [answer_ttl 5, answer_ttl 30]"
  have ne: "elems ?m (Slice 0) \<noteq> []"
    by simp
  have mn: "Min (TTL ` set (elems ?m (Slice 0))) = 5"
    by simp
  have lo: "- 9223372036 \<le> Min (TTL ` set (elems ?m (Slice 0)))"
    and hi: "Min (TTL ` set (elems ?m (Slice 0))) \<le> 9223372036"
    unfolding mn by simp_all
  note T = C4_cacheSet_min_ttl [OF ne lo hi, of client0 1000 "''example.com.|1''" 1000000999]
  from T have set: "cacheSet client0 ?m 1000 ''example.com.|1'' (Slice 0) = cached_at 5000001000"
    unfolding mn by (simp add: cached_at_def)
  from T [THEN conjunct2, THEN conjunct1]
  have get: "cacheGet (cached_at 5000001000) ?m 1000 ''example.com.|1'' =
      ((Slice 0, True), cached_at 5000001000, set_ttls ?m (Slice 0) 5)"
    unfolding mn set by simp
  from T [THEN conjunct2, THEN conjunct2]
  have later: "cacheGet (cached_at 5000001000) ?m 1000000999 ''example.com.|1'' =
      ((Slice 0, True), cached_at 5000001000, set_ttls ?m (Slice 0) 5)"
    unfolding mn set by simp
  show ?thesis
    unfolding get later using ne mn set by simp
qed

text \<open>
  Claim C4 as stated fails where the product overflows: for one answer with TTL 9223372037
  set at instant 0, the stored expiry is \<open>-9223372036709551616\<close>, not
  \<open>9223372037 * 10\<^sup>9\<close>, and a get at the same instant reports not-found.
\<close>

theorem C4_overflow_counterexample:
  "map TTL (elems (memory_of [answer_ttl 9223372037]) (Slice 0)) = [9223372037] \<and>
   cacheSet client0 (memory_of [answer_ttl 9223372037]) 0 ''example.com.|1'' (Slice 0) =
     cached_at (- 9223372036709551616) \<and>
   (0::int) + 9223372037 * 1000000000 \<noteq> - 9223372036709551616 \<and>
   fst (cacheGet (cached_at (- 9223372036709551616)) (memory_of [answer_ttl 9223372037]) 0
     ''example.com.|1'') = (NilSlice, False)"
proof -
  have "cacheSet client0 (memory_of [answer_ttl 9223372037]) 0 ''example.com.|1'' (Slice 0) =
      cached_at (- 9223372036709551616)"
    by (simp add: cacheSet_memory_of int64_def)
  moreover have "cacheGet (cached_at (- 9223372036709551616)) (memory_of [answer_ttl 9223372037]) 0
      ''example.com.|1'' =
      ((NilSlice, False),
       (cached_at (- 9223372036709551616))\<lparr>cache :=
          (cache (cached_at (- 9223372036709551616)))(''example.com.|1'' := None)\<rparr>,
       memory_of [answer_ttl 9223372037])"
    by (rule cacheGet_stale [where e = "\<lparr>answer = Slice 0, expired = - 9223372036709551616\<rparr>"])
      simp_all
  ultimately show ?thesis
    by simp
qed

text \<open>
  Claim C5, as amended. Setting an empty answer list under a key is a no-op: \<^verbatim>\<open>cacheSet\<close>
  returns the client unchanged, whether the slice is \<^verbatim>\<open>nil\<close> or empty, so an empty answer is
  never cached, and a \<^verbatim>\<open>cacheGet\<close> for the key after it returns what it returns without the
  set: not-found exactly when the cache holds no unexpired entry under the key. \<^verbatim>\<open>Query\<close>
  reaches \<^verbatim>\<open>cacheSet\<close> only after \<^verbatim>\<open>cacheGet\<close> has missed, which leaves no entry under the
  key. So when the upstream answers a miss with an empty list, the client that \<^verbatim>\<open>Query\<close>
  returns has no entry under the key, a \<^verbatim>\<open>cacheGet\<close> for the key reports not-found at every
  instant, and the next \<^verbatim>\<open>Query\<close> for the same name and type calls the upstream again and
  returns the slice and the memory of that call.
\<close>

theorem C5_cacheSet_empty_noop:
  fixes name :: string and qtype :: "16 word" and c :: DNSClient and m :: memory and tg ts :: Time
  defines "fq \<equiv> Fqdn name"
  defines "qkey \<equiv> cacheKey (Fqdn name) qtype"
  defines "c1 \<equiv> fst (snd (Query c m tg ts name qtype))"
  shows
   "(len m ans = 0 \<longrightarrow>
       cacheSet c m now key ans = c \<and>
       cacheGet (cacheSet c m now key ans) m now' key = cacheGet c m now' key \<and>
       (fst (cacheGet (cacheSet c m now key ans) m now' key) = (NilSlice, False) \<longleftrightarrow>
          \<not> (\<exists>e. cache c key = Some (Cached e) \<and> now' < expired e))) \<and>
    ((qtype = TypeA \<longrightarrow> staticIpV4 c fq = None) \<and>
     (qtype = TypeAAAA \<longrightarrow> staticIpV6 c fq = None) \<and>
     \<not> (\<exists>e. cache c qkey = Some (Cached e) \<and> tg < expired e) \<and>
     route (router c) fq = Some cli \<and> cli fq qtype m = (a1, m1) \<and> len m1 a1 = 0 \<longrightarrow>
       Query c m tg ts name qtype = (a1, c\<lparr>cache := (cache c)(qkey := None)\<rparr>, m1) \<and>
       cache c1 qkey = None \<and>
       fst (cacheGet c1 m1 now' qkey) = (NilSlice, False) \<and>
       (cli fq qtype m1 = (a2, m2) \<longrightarrow>
          Query c1 m1 tg' ts' name qtype = (a2, cacheSet c1 m2 ts' qkey a2, m2)))"
proof (intro conjI impI)
  assume "len m ans = 0"
  then have "elems m ans = []"
    by (simp add: len_def)
  then have noop: "cacheSet c m now key ans = c"
    by (rule cacheSet_empty)
  show "cacheSet c m now key ans = c"
    by (rule noop)
  show "cacheGet (cacheSet c m now key ans) m now' key = cacheGet c m now' key"
    unfolding noop ..
  show "fst (cacheGet (cacheSet c m now key ans) m now' key) = (NilSlice, False) \<longleftrightarrow>
      \<not> (\<exists>e. cache c key = Some (Cached e) \<and> now' < expired e)"
    unfolding noop by (rule cacheGet_found_iff)
next
  assume h: "(qtype = TypeA \<longrightarrow> staticIpV4 c fq = None) \<and>
     (qtype = TypeAAAA \<longrightarrow> staticIpV6 c fq = None) \<and>
     \<not> (\<exists>e. cache c qkey = Some (Cached e) \<and> tg < expired e) \<and>
     route (router c) fq = Some cli \<and> cli fq qtype m = (a1, m1) \<and> len m1 a1 = 0"
  let ?c = "c\<lparr>cache := (cache c)(qkey := None)\<rparr>"
  from h have s4: "qtype = TypeA \<longrightarrow> staticIpV4 c (Fqdn name) = None"
    and s6: "qtype = TypeAAAA \<longrightarrow> staticIpV6 c (Fqdn name) = None"
    and miss: "\<not> (\<exists>e. cache c (cacheKey (Fqdn name) qtype) = Some (Cached e) \<and> tg < expired e)"
    and r: "route (router c) (Fqdn name) = Some cli"
    and up: "cli (Fqdn name) qtype m = (a1, m1)"
    and e: "elems m1 a1 = []"
    by (simp_all add: fq_def qkey_def len_def)
  have q: "Query c m tg ts name qtype = (a1, ?c, m1)"
    unfolding qkey_def
    by (simp add: Query_miss_route [OF s4 s6 miss r up] cacheSet_empty [OF e])
  then have c1: "c1 = ?c"
    by (simp add: c1_def)
  show "Query c m tg ts name qtype = (a1, ?c, m1)"
    by (rule q)
  show absent: "cache c1 qkey = None"
    by (simp add: c1)
  then show "fst (cacheGet c1 m1 now' qkey) = (NilSlice, False)"
    by (simp add: cacheGet_absent)
  {
    assume up2: "cli fq qtype m1 = (a2, m2)"
    have s4': "qtype = TypeA \<longrightarrow> staticIpV4 c1 (Fqdn name) = None"
      and s6': "qtype = TypeAAAA \<longrightarrow> staticIpV6 c1 (Fqdn name) = None"
      using s4 s6 by (simp_all add: c1)
    have miss': "\<not> (\<exists>e. cache c1 (cacheKey (Fqdn name) qtype) = Some (Cached e) \<and> tg' < expired e)"
      using absent by (simp add: qkey_def)
    have r': "route (router c1) (Fqdn name) = Some cli"
      using r by (simp add: c1)
    from up2 have up2': "cli (Fqdn name) qtype m1 = (a2, m2)"
      by (simp add: fq_def)
    have same: "c1\<lparr>cache := (cache c1)(cacheKey (Fqdn name) qtype := None)\<rparr> = c1"
      using absent by (simp add: qkey_def cache_delete_absent)
    show "Query c1 m1 tg' ts' name qtype = (a2, cacheSet c1 m2 ts' qkey a2, m2)"
      using Query_miss_route [OF s4' s6' miss' r' up2', of ts'] unfolding same
      by (simp add: qkey_def)
  }
qed

text \<open>
  The theorem at the empty client, where the get after the set reports not-found; at a
  client whose entry under the key expired at instant 5, where it reports not-found as
  well; and at a client routing \<open>example.com.\<close> to an upstream that answers with an empty
  slice: the first query returns the upstream's slice 0 and caches nothing, and the second
  query calls the upstream again, which allocates slice 1.
\<close>

theorem C5_cacheSet_empty_noop_witness:
  "len memory0 NilSlice = 0 \<and> len memory0 (Slice 0) = 0 \<and>
   cacheSet client0 memory0 7 ''example.com.|1'' (Slice 0) = client0 \<and>
   fst (cacheGet (cacheSet client0 memory0 7 ''example.com.|1'' (Slice 0)) memory0 8 ''example.com.|1'')
     = (NilSlice, False) \<and>
   cacheSet (cached_at 5) memory0 7 ''example.com.|1'' NilSlice = cached_at 5 \<and>
   fst (cacheGet (cacheSet (cached_at 5) memory0 7 ''example.com.|1'' NilSlice) memory0 8
     ''example.com.|1'') = (NilSlice, False) \<and>
   Query client3 memory0 0 0 ''www.example.com'' TypeA =
     (Slice 0, client3, \<lparr>arrays = (\<lambda>a. []), next_free = 1\<rparr>) \<and>
   len \<lparr>arrays = (\<lambda>a. []), next_free = 1\<rparr> (Slice 0) = 0 \<and>
   fst (cacheGet client3 \<lparr>arrays = (\<lambda>a. []), next_free = 1\<rparr> 1 ''www.example.com.|1'') =
     (NilSlice, False) \<and>
   Query client3 \<lparr>arrays = (\<lambda>a. []), next_free = 1\<rparr> 1 1 ''www.example.com'' TypeA =
     (Slice 1, client3, \<lparr>arrays = (\<lambda>a. []), next_free = 2\<rparr>)"
proof -
  let ?m1 = "\<lparr>arrays = (\<lambda>a. []), next_free = 1\<rparr>"
  let ?m2 = "\<lparr>arrays = (\<lambda>a. []), next_free = 2\<rparr>"
  have e0: "len memory0 NilSlice = 0" and e1: "len memory0 (Slice 0) = 0"
    by (simp_all add: len_def elems_def memory0_def)
  note A = C5_cacheSet_empty_noop [where m = memory0 and ans = "Slice 0" and c = client0 and now = 7
      and key = "''example.com.|1''" and now' = 8,
      THEN conjunct1, rule_format, OF e1]
  have a1: "cacheSet client0 memory0 7 ''example.com.|1'' (Slice 0) = client0"
    by (rule A [THEN conjunct1])
  have a2: "fst (cacheGet (cacheSet client0 memory0 7 ''example.com.|1'' (Slice 0)) memory0 8
      ''example.com.|1'') = (NilSlice, False)"
    using A [THEN conjunct2, THEN conjunct2] by (simp add: client0_def)
  note B = C5_cacheSet_empty_noop [where m = memory0 and ans = NilSlice and c = "cached_at 5" and now = 7
      and key = "''example.com.|1''" and now' = 8,
      THEN conjunct1, rule_format, OF e0]
  have b1: "cacheSet (cached_at 5) memory0 7 ''example.com.|1'' NilSlice = cached_at 5"
    by (rule B [THEN conjunct1])
  have b2: "fst (cacheGet (cacheSet (cached_at 5) memory0 7 ''example.com.|1'' NilSlice) memory0 8
      ''example.com.|1'') = (NilSlice, False)"
    using B [THEN conjunct2, THEN conjunct2] by simp
  have up1: "upstream_empty ''www.example.com.'' TypeA memory0 = (Slice 0, ?m1)"
    and up2: "upstream_empty ''www.example.com.'' TypeA ?m1 = (Slice 1, ?m2)"
    by (simp_all add: upstream_empty_def alloc_def memory0_def fun_eq_iff)
  have l1: "len ?m1 (Slice 0) = 0" and l2: "elems ?m2 (Slice 1) = []"
    by (simp_all add: len_def elems_def)
  have same: "client3\<lparr>cache := (cache client3)(''www.example.com.|1'' := None)\<rparr> = client3"
    by (simp add: cache_delete_absent)
  have hyp: "(TypeA = TypeA \<longrightarrow> staticIpV4 client3 (Fqdn ''www.example.com'') = None) \<and>
     (TypeA = TypeAAAA \<longrightarrow> staticIpV6 client3 (Fqdn ''www.example.com'') = None) \<and>
     \<not> (\<exists>e. cache client3 (cacheKey (Fqdn ''www.example.com'') TypeA) = Some (Cached e) \<and> 0 < expired e) \<and>
     route (router client3) (Fqdn ''www.example.com'') = Some upstream_empty \<and>
     upstream_empty (Fqdn ''www.example.com'') TypeA memory0 = (Slice 0, ?m1) \<and>
     len ?m1 (Slice 0) = 0"
    by (simp add: Fqdn_examples route_client3 up1 len_def elems_def)
  note Q = C5_cacheSet_empty_noop [where qtype = TypeA and c = client3 and name = "''www.example.com''"
      and m = memory0 and tg = 0 and ts = 0 and cli = upstream_empty and ?a1.0 = "Slice 0"
      and ?m1.0 = ?m1 and now' = 1 and ?a2.0 = "Slice 1" and ?m2.0 = ?m2 and tg' = 1 and ts' = 1, THEN conjunct2, rule_format, OF hyp]
  from Q [THEN conjunct1]
  have q1: "Query client3 memory0 0 0 ''www.example.com'' TypeA = (Slice 0, client3, ?m1)"
    by (simp add: Fqdn_examples cacheKey_examples same)
  from Q [THEN conjunct2, THEN conjunct2, THEN conjunct1]
  have g: "fst (cacheGet client3 ?m1 1 ''www.example.com.|1'') = (NilSlice, False)"
    unfolding q1 by (simp add: Fqdn_examples cacheKey_examples)
  have up2': "upstream_empty (Fqdn ''www.example.com'') TypeA ?m1 = (Slice 1, ?m2)"
    unfolding Fqdn_examples by (rule up2)
  have q2: "Query client3 ?m1 1 1 ''www.example.com'' TypeA = (Slice 1, client3, ?m2)"
    using Q [THEN conjunct2, THEN conjunct2, THEN conjunct2, THEN mp, OF up2']
    unfolding q1 fst_conv snd_conv cacheSet_empty [OF l2] .
  from e0 e1 a1 a2 b1 b2 q1 l1 g q2 show ?thesis
    by (intro conjI)
qed

text \<open>
  Claim C5 as stated fails for a key that holds an unexpired entry: with an entry expiring
  at \<open>5000001000\<close> in place, setting the empty list at instant 1000 leaves the entry
  there, and a get at the same instant reports found with the stored slice.
\<close>

theorem C5_live_entry_counterexample:
  "len (memory_of [answer_ttl 5, answer_ttl 30]) NilSlice = 0 \<and>
   cache (cached_at 5000001000) ''example.com.|1'' =
     Some (Cached \<lparr>answer = Slice 0, expired = 5000001000\<rparr>) \<and>
   fst (cacheGet (cacheSet (cached_at 5000001000) (memory_of [answer_ttl 5, answer_ttl 30]) 1000
     ''example.com.|1'' NilSlice) (memory_of [answer_ttl 5, answer_ttl 30]) 1000 ''example.com.|1'') =
     (Slice 0, True)"
proof -
  have "cacheSet (cached_at 5000001000) (memory_of [answer_ttl 5, answer_ttl 30]) 1000
      ''example.com.|1'' NilSlice = cached_at 5000001000"
    by (rule cacheSet_empty) (simp add: elems_def)
  moreover have "fst (cacheGet (cached_at 5000001000) (memory_of [answer_ttl 5, answer_ttl 30]) 1000
      ''example.com.|1'') = (Slice 0, True)"
    by (simp add: cacheGet_fresh [where e = "\<lparr>answer = Slice 0, expired = 5000001000\<rparr>"])
  ultimately show ?thesis
    by (simp add: len_def elems_def)
qed

text \<open>
  Claim C6. When the IPv4 table has an entry for the normalized name, a query of type A
  returns a newly allocated slice with the single answer of that name and type, TTL 60 and
  the table's address as data, whatever the cache and the routing table hold; the client,
  and with it the cache, is returned unchanged, so the answer is not cached. The same holds
  for type AAAA and the IPv6 table. For every other record type the table is not
  consulted: replacing the IPv4 table changes nothing in the result of a query whose type
  is not A but that table in the returned client, and likewise for the IPv6 table and
  AAAA. A query for which the table of its type has no entry for the name, such as a query
  of type AAAA for a name that only the IPv4 table holds, is answered by the cache and the
  routing table: an unexpired entry under the key is served as \<^verbatim>\<open>cacheGet\<close> serves it;
  otherwise the routed upstream is called, its slice returned and passed to \<^verbatim>\<open>cacheSet\<close>;
  without a route the result is \<^verbatim>\<open>nil\<close>.
\<close>

theorem C6_static_override:
  fixes name :: string and qtype :: "16 word"
  defines "fq \<equiv> Fqdn name"
  defines "key \<equiv> cacheKey (Fqdn name) qtype"
  shows
   "(staticIpV4 c fq = Some ip \<longrightarrow>
       Query c m tg ts name TypeA =
         (Slice (next_free m), c,
          m\<lparr>arrays := (arrays m)(next_free m :=
               [\<lparr>Name = fq, Type = TypeA, TTL = 60, Data = ip\<rparr>]),
            next_free := Suc (next_free m)\<rparr>)) \<and>
    (staticIpV6 c fq = Some ip \<longrightarrow>
       Query c m tg ts name TypeAAAA =
         (Slice (next_free m), c,
          m\<lparr>arrays := (arrays m)(next_free m :=
               [\<lparr>Name = fq, Type = TypeAAAA, TTL = 60, Data = ip\<rparr>]),
            next_free := Suc (next_free m)\<rparr>)) \<and>
    (qtype \<noteq> TypeA \<longrightarrow>
       Query (c\<lparr>staticIpV4 := v4\<rparr>) m tg ts name qtype =
         (case Query c m tg ts name qtype of (s, c', m') \<Rightarrow> (s, c'\<lparr>staticIpV4 := v4\<rparr>, m'))) \<and>
    (qtype \<noteq> TypeAAAA \<longrightarrow>
       Query (c\<lparr>staticIpV6 := v6\<rparr>) m tg ts name qtype =
         (case Query c m tg ts name qtype of (s, c', m') \<Rightarrow> (s, c'\<lparr>staticIpV6 := v6\<rparr>, m'))) \<and>
    ((qtype = TypeA \<longrightarrow> staticIpV4 c fq = None) \<and>
     (qtype = TypeAAAA \<longrightarrow> staticIpV6 c fq = None) \<longrightarrow>
       (cache c key = Some (Cached e) \<and> tg < expired e \<longrightarrow>
          Query c m tg ts name qtype =
            (answer e, c, set_ttls m (answer e) (Ceil (Seconds (Sub (expired e) tg))))) \<and>
       (\<not> (\<exists>e'. cache c key = Some (Cached e') \<and> tg < expired e') \<longrightarrow>
          (route (router c) fq = Some cli \<and> cli fq qtype m = (ans, m') \<longrightarrow>
             Query c m tg ts name qtype =
               (ans, cacheSet (c\<lparr>cache := (cache c)(key := None)\<rparr>) m' ts key ans, m')) \<and>
          (route (router c) fq = None \<longrightarrow>
             Query c m tg ts name qtype =
               (NilSlice, c\<lparr>cache := (cache c)(key := None)\<rparr>, m))))"
  unfolding fq_def key_def
proof (intro conjI impI)
  assume "staticIpV4 c (Fqdn name) = Some ip"
  then show "Query c m tg ts name TypeA =
      (Slice (next_free m), c,
       m\<lparr>arrays := (arrays m)(next_free m :=
            [\<lparr>Name = Fqdn name, Type = TypeA, TTL = 60, Data = ip\<rparr>]),
         next_free := Suc (next_free m)\<rparr>)"
    by (rule Query_staticIpV4)
next
  assume "staticIpV6 c (Fqdn name) = Some ip"
  then show "Query c m tg ts name TypeAAAA =
      (Slice (next_free m), c,
       m\<lparr>arrays := (arrays m)(next_free m :=
            [\<lparr>Name = Fqdn name, Type = TypeAAAA, TTL = 60, Data = ip\<rparr>]),
         next_free := Suc (next_free m)\<rparr>)"
    by (rule Query_staticIpV6)
next
  assume "qtype \<noteq> TypeA"
  then show "Query (c\<lparr>staticIpV4 := v4\<rparr>) m tg ts name qtype =
      (case Query c m tg ts name qtype of (s, c', m') \<Rightarrow> (s, c'\<lparr>staticIpV4 := v4\<rparr>, m'))"
    by (simp add: Query_def Let_def cacheGet_def cacheSet_def alloc_def
        split: option.split cache_value.split list.split prod.split bool.split)
next
  assume "qtype \<noteq> TypeAAAA"
  then show "Query (c\<lparr>staticIpV6 := v6\<rparr>) m tg ts name qtype =
      (case Query c m tg ts name qtype of (s, c', m') \<Rightarrow> (s, c'\<lparr>staticIpV6 := v6\<rparr>, m'))"
    by (simp add: Query_def Let_def cacheGet_def cacheSet_def alloc_def
        split: option.split cache_value.split list.split prod.split bool.split)
next
  assume s: "(qtype = TypeA \<longrightarrow> staticIpV4 c (Fqdn name) = None) \<and>
      (qtype = TypeAAAA \<longrightarrow> staticIpV6 c (Fqdn name) = None)"
    and h: "cache c (cacheKey (Fqdn name) qtype) = Some (Cached e) \<and> tg < expired e"
  show "Query c m tg ts name qtype =
      (answer e, c, set_ttls m (answer e) (Ceil (Seconds (Sub (expired e) tg))))"
    by (rule Query_hit [OF conjunct1 [OF s] conjunct2 [OF s] conjunct1 [OF h] conjunct2 [OF h]])
next
  assume s: "(qtype = TypeA \<longrightarrow> staticIpV4 c (Fqdn name) = None) \<and>
      (qtype = TypeAAAA \<longrightarrow> staticIpV6 c (Fqdn name) = None)"
    and n: "\<not> (\<exists>e'. cache c (cacheKey (Fqdn name) qtype) = Some (Cached e') \<and> tg < expired e')"
    and r: "route (router c) (Fqdn name) = Some cli \<and> cli (Fqdn name) qtype m = (ans, m')"
  show "Query c m tg ts name qtype =
      (ans,
       cacheSet (c\<lparr>cache := (cache c)(cacheKey (Fqdn name) qtype := None)\<rparr>) m' ts
         (cacheKey (Fqdn name) qtype) ans,
       m')"
    by (rule Query_miss_route [OF conjunct1 [OF s] conjunct2 [OF s] n conjunct1 [OF r] conjunct2 [OF r]])
next
  assume s: "(qtype = TypeA \<longrightarrow> staticIpV4 c (Fqdn name) = None) \<and>
      (qtype = TypeAAAA \<longrightarrow> staticIpV6 c (Fqdn name) = None)"
    and n: "\<not> (\<exists>e'. cache c (cacheKey (Fqdn name) qtype) = Some (Cached e') \<and> tg < expired e')"
    and r: "route (router c) (Fqdn name) = None"
  show "Query c m tg ts name qtype =
      (NilSlice, c\<lparr>cache := (cache c)(cacheKey (Fqdn name) qtype := None)\<rparr>, m)"
    by (rule Query_miss_no_route [OF conjunct1 [OF s] conjunct2 [OF s] n r])
qed

text \<open>
  The theorem at a name with an IPv4 override only. The query of type A serves the
  override, and a name in the IPv6 table is served for type AAAA. The query of type AAAA
  for the name with the IPv4 override is resolved by the upstream and cached; one second
  later it is served from the cache with TTL 299; with an empty routing table it yields
  \<^verbatim>\<open>nil\<close>; and it is resolved the same way when the IPv4 table is emptied.
\<close>

theorem C6_static_override_witness:
  "staticIpV4 client1 (Fqdn ''static.example.com'') = Some ''10.0.0.1'' \<and>
   staticIpV6 client1 (Fqdn ''static.example.com'') = None \<and>
   Query client1 memory0 0 0 ''static.example.com'' TypeA =
     (Slice 0, client1,
      \<lparr>arrays = (\<lambda>a. [])(0 :=
         [\<lparr>Name = ''static.example.com.'', Type = TypeA, TTL = 60, Data = ''10.0.0.1''\<rparr>]),
       next_free = 1\<rparr>) \<and>
   staticIpV6 client1 (Fqdn ''v6.example.com'') = Some ''2001:db8::1'' \<and>
   Query client1 memory0 0 0 ''v6.example.com'' TypeAAAA =
     (Slice 0, client1,
      \<lparr>arrays = (\<lambda>a. [])(0 :=
         [\<lparr>Name = ''v6.example.com.'', Type = TypeAAAA, TTL = 60, Data = ''2001:db8::1''\<rparr>]),
       next_free = 1\<rparr>) \<and>
   TypeAAAA \<noteq> TypeA \<and>
   Query client1 memory0 0 0 ''static.example.com'' TypeAAAA = (Slice 0, client4, memory2) \<and>
   elems memory2 (Slice 0) =
     [\<lparr>Name = ''static.example.com.'', Type = TypeAAAA, TTL = 300, Data = ''93.184.216.34''\<rparr>] \<and>
   fst (Query client4 memory2 1000000000 1000000000 ''static.example.com'' TypeAAAA) = Slice 0 \<and>
   elems (snd (snd (Query client4 memory2 1000000000 1000000000 ''static.example.com'' TypeAAAA)))
     (Slice 0) =
     [\<lparr>Name = ''static.example.com.'', Type = TypeAAAA, TTL = 299, Data = ''93.184.216.34''\<rparr>] \<and>
   fst (Query (client1\<lparr>router := Map.empty\<rparr>) memory0 0 0 ''static.example.com'' TypeAAAA) =
     NilSlice \<and>
   fst (Query (client1\<lparr>staticIpV4 := Map.empty\<rparr>) memory0 0 0 ''static.example.com'' TypeAAAA) =
     fst (Query client1 memory0 0 0 ''static.example.com'' TypeAAAA)"
proof -
  have s4: "staticIpV4 client1 (Fqdn ''static.example.com'') = Some ''10.0.0.1''"
    and s6n: "staticIpV6 client1 (Fqdn ''static.example.com'') = None"
    and s6: "staticIpV6 client1 (Fqdn ''v6.example.com'') = Some ''2001:db8::1''"
    by (simp_all add: Fqdn_examples)
  note T = C6_static_override [of client1 "''static.example.com''" "''10.0.0.1''" memory0 0 0
      TypeAAAA Map.empty]
  from T [THEN conjunct1] s4
  have q1: "Query client1 memory0 0 0 ''static.example.com'' TypeA =
      (Slice 0, client1,
       \<lparr>arrays = (\<lambda>a. [])(0 :=
          [\<lparr>Name = ''static.example.com.'', Type = TypeA, TTL = 60, Data = ''10.0.0.1''\<rparr>]),
        next_free = 1\<rparr>)"
    by (simp add: Fqdn_examples memory0_def)
  from C6_static_override [of client1 "''v6.example.com''" "''2001:db8::1''" memory0 0 0,
      THEN conjunct2, THEN conjunct1] s6
  have q2: "Query client1 memory0 0 0 ''v6.example.com'' TypeAAAA =
      (Slice 0, client1,
       \<lparr>arrays = (\<lambda>a. [])(0 :=
          [\<lparr>Name = ''v6.example.com.'', Type = TypeAAAA, TTL = 60, Data = ''2001:db8::1''\<rparr>]),
        next_free = 1\<rparr>)"
    by (simp add: Fqdn_examples memory0_def)
  note F = C6_static_override [where c = client1 and name = "''static.example.com''"
      and qtype = TypeAAAA and m = memory0 and tg = 0 and ts = 0 and cli = upstream0
      and ans = "Slice 0" and m' = memory2,
      THEN conjunct2, THEN conjunct2, THEN conjunct2, THEN conjunct2]
  have "Query client1 memory0 0 0 ''static.example.com'' TypeAAAA =
      (Slice 0,
       cacheSet (client1\<lparr>cache := (cache client1)(''static.example.com.|28'' := None)\<rparr>) memory2 0
         ''static.example.com.|28'' (Slice 0),
       memory2)"
    using F by (simp add: Fqdn_examples cacheKey_examples route_client1 upstream0_static)
  moreover have "cacheSet (client1\<lparr>cache := (cache client1)(''static.example.com.|28'' := None)\<rparr>)
      memory2 0 ''static.example.com.|28'' (Slice 0) = client4"
    by (simp add: cacheSet_def elems_def memory2_def client4_def Let_def Add_def Duration_mul_def
        Second_def int64_def)
  ultimately have q3: "Query client1 memory0 0 0 ''static.example.com'' TypeAAAA =
      (Slice 0, client4, memory2)"
    by simp
  note H = C6_static_override [where c = client4 and name = "''static.example.com''"
      and qtype = TypeAAAA and m = memory2 and tg = 1000000000 and ts = 1000000000
      and e = "\<lparr>answer = Slice 0, expired = 300000000000\<rparr>",
      THEN conjunct2, THEN conjunct2, THEN conjunct2, THEN conjunct2]
  have t: "Ceil (Seconds (Sub 300000000000 1000000000)) = 299"
    using Ceil_Seconds_whole [of 299] by (simp add: Sub_def minDuration_def maxDuration_def)
  have q4: "Query client4 memory2 1000000000 1000000000 ''static.example.com'' TypeAAAA =
      (Slice 0, client4, set_ttls memory2 (Slice 0) 299)"
    using H by (simp add: Fqdn_examples cacheKey_examples t)
  note N = C6_static_override [where c = "client1\<lparr>router := Map.empty\<rparr>"
      and name = "''static.example.com''" and qtype = TypeAAAA and m = memory0 and tg = 0 and ts = 0,
      THEN conjunct2, THEN conjunct2, THEN conjunct2, THEN conjunct2]
  have q5: "fst (Query (client1\<lparr>router := Map.empty\<rparr>) memory0 0 0 ''static.example.com'' TypeAAAA) =
      NilSlice"
    using N by (simp add: Fqdn_examples cacheKey_examples)
  from T [THEN conjunct2, THEN conjunct2, THEN conjunct1]
  have q6: "fst (Query (client1\<lparr>staticIpV4 := Map.empty\<rparr>) memory0 0 0 ''static.example.com'' TypeAAAA) =
      fst (Query client1 memory0 0 0 ''static.example.com'' TypeAAAA)"
    by (simp add: case_prod_beta)
  show ?thesis
    unfolding q6 q5 unfolding q1 q2 q3 q4 using s4 s6 s6n
    by (simp add: elems_def set_ttls_def memory2_def)
qed




text \<open>
  Claim C8. When no static table applies to the name and type, the cache has no entry
  under the key and no routing rule matches the name, \<^verbatim>\<open>Query\<close> returns \<^verbatim>\<open>nil\<close>, a slice of
  length 0, and leaves client and memory as they were. \<^verbatim>\<open>Query\<close> is a total function with no
  error result: this path reads maps and the cache and calls nothing that can panic.
\<close>

theorem C8_Query_no_route:
  assumes "qtype = TypeA \<longrightarrow> staticIpV4 c (Fqdn name) = None"
    and "qtype = TypeAAAA \<longrightarrow> staticIpV6 c (Fqdn name) = None"
    and "cache c (cacheKey (Fqdn name) qtype) = None"
    and "route (router c) (Fqdn name) = None"
  shows "Query c m tg ts name qtype = (NilSlice, c, m) \<and>
    len (snd (snd (Query c m tg ts name qtype))) (fst (Query c m tg ts name qtype)) = 0"
proof -
  have "\<not> (\<exists>e. cache c (cacheKey (Fqdn name) qtype) = Some (Cached e) \<and> tg < expired e)"
    using assms(3) by simp
  then have "Query c m tg ts name qtype =
      (NilSlice, c\<lparr>cache := (cache c)(cacheKey (Fqdn name) qtype := None)\<rparr>, m)"
    by (rule Query_miss_no_route [OF assms(1,2) _ assms(4)])
  moreover have "(cache c)(cacheKey (Fqdn name) qtype := None) = cache c"
    using assms(3) by (simp add: fun_upd_idem_iff)
  ultimately have "Query c m tg ts name qtype = (NilSlice, c, m)"
    by simp
  then show ?thesis
    by (simp add: len_def elems_def)
qed

text \<open>
  The theorem at \<open>other.org.\<close>, for which the example client has no override, no cache
  entry and no route.
\<close>

theorem C8_Query_no_route_witness:
  "staticIpV4 client1 (Fqdn ''other.org.'') = None \<and>
   cache client1 (cacheKey (Fqdn ''other.org.'') TypeA) = None \<and>
   route (router client1) (Fqdn ''other.org.'') = None \<and>
   Query client1 memory0 0 0 ''other.org.'' TypeA = (NilSlice, client1, memory0) \<and>
   len memory0 NilSlice = 0"
proof -
  have s4: "TypeA = TypeA \<longrightarrow> staticIpV4 client1 (Fqdn ''other.org.'') = None"
    by (simp add: Fqdn_examples)
  have s6: "TypeA = TypeAAAA \<longrightarrow> staticIpV6 client1 (Fqdn ''other.org.'') = None"
    by simp
  have k: "cache client1 (cacheKey (Fqdn ''other.org.'') TypeA) = None"
    by simp
  have r: "route (router client1) (Fqdn ''other.org.'') = None"
    by (simp add: Fqdn_examples route_client1)
  from C8_Query_no_route [OF s4 s6 k r, of memory0 0 0]
  have "Query client1 memory0 0 0 ''other.org.'' TypeA = (NilSlice, client1, memory0)"
    by simp
  with s4 k r show ?thesis
    by (simp add: len_def elems_def)
qed

text \<open>
  Claim C9. A get that finds a fresh entry returns the very slice the entry holds and
  writes the remaining TTL into every element of its backing array: memory changes at that
  one address, nothing is allocated, and the cache still holds the same entry. A second
  fresh get returns the same slice again and overwrites the same array, so the array the
  first result refers to then shows the TTL of the second get.
\<close>

theorem C9_cacheGet_aliasing:
  assumes "cache c key = Some (Cached e)" and "answer e = Slice a"
    and "now < expired e" and "now' < expired e"
  shows "cacheGet c m now key =
      ((Slice a, True), c,
       m\<lparr>arrays := (arrays m)(a :=
          map (\<lambda>x. x\<lparr>TTL := Ceil (Seconds (Sub (expired e) now))\<rparr>) (arrays m a))\<rparr>) \<and>
    cacheGet c (snd (snd (cacheGet c m now key))) now' key =
      ((Slice a, True), c,
       m\<lparr>arrays := (arrays m)(a :=
          map (\<lambda>x. x\<lparr>TTL := Ceil (Seconds (Sub (expired e) now'))\<rparr>) (arrays m a))\<rparr>) \<and>
    elems (snd (snd (cacheGet c (snd (snd (cacheGet c m now key))) now' key))) (Slice a) =
      map (\<lambda>x. x\<lparr>TTL := Ceil (Seconds (Sub (expired e) now'))\<rparr>) (elems m (Slice a))"
proof -
  let ?t = "Ceil (Seconds (Sub (expired e) now))"
  let ?t' = "Ceil (Seconds (Sub (expired e) now'))"
  let ?m1 = "m\<lparr>arrays := (arrays m)(a := map (\<lambda>x. x\<lparr>TTL := ?t\<rparr>) (arrays m a))\<rparr>"
  have first: "cacheGet c m now key = ((Slice a, True), c, ?m1)"
    using cacheGet_fresh [OF assms(1,3), of m] by (simp add: assms(2) set_ttls_def)
  have "cacheGet c ?m1 now' key = ((Slice a, True), c, set_ttls ?m1 (Slice a) ?t')"
    using cacheGet_fresh [OF assms(1,4), of ?m1] by (simp add: assms(2))
  also have "set_ttls ?m1 (Slice a) ?t' =
      m\<lparr>arrays := (arrays m)(a := map (\<lambda>x. x\<lparr>TTL := ?t'\<rparr>) (arrays m a))\<rparr>"
    by (simp add: set_ttls_def comp_def)
  finally have second: "cacheGet c ?m1 now' key =
      ((Slice a, True), c,
       m\<lparr>arrays := (arrays m)(a := map (\<lambda>x. x\<lparr>TTL := ?t'\<rparr>) (arrays m a))\<rparr>)" .
  show ?thesis
    unfolding first using second by (simp add: elems_def)
qed

text \<open>
  The theorem at an entry that expires at 5 s: a get at 0 s returns slice 0 with TTLs 5,
  a get at 2 s returns slice 0 again, and the array then holds TTLs 3.
\<close>

theorem C9_cacheGet_aliasing_witness:
  "cache (cached_at 5000000000) ''example.com.|1'' =
     Some (Cached \<lparr>answer = Slice 0, expired = 5000000000\<rparr>) \<and>
   fst (cacheGet (cached_at 5000000000) (memory_of [answer_ttl 5, answer_ttl 30]) 0 ''example.com.|1'')
     = (Slice 0, True) \<and>
   map TTL (elems (snd (snd (cacheGet (cached_at 5000000000) (memory_of [answer_ttl 5, answer_ttl 30]) 0
     ''example.com.|1''))) (Slice 0)) = [5, 5] \<and>
   fst (cacheGet (cached_at 5000000000)
     (snd (snd (cacheGet (cached_at 5000000000) (memory_of [answer_ttl 5, answer_ttl 30]) 0
       ''example.com.|1''))) 2000000000 ''example.com.|1'') = (Slice 0, True) \<and>
   map TTL (elems (snd (snd (cacheGet (cached_at 5000000000)
     (snd (snd (cacheGet (cached_at 5000000000) (memory_of [answer_ttl 5, answer_ttl 30]) 0
       ''example.com.|1''))) 2000000000 ''example.com.|1''))) (Slice 0)) = [3, 3]"
proof -
  let ?m = "memory_of [answer_ttl 5, answer_ttl 30]"
  let ?e = "\<lparr>answer = Slice 0, expired = 5000000000\<rparr>"
  have h: "cache (cached_at 5000000000) ''example.com.|1'' = Some (Cached ?e)"
    by simp
  have a: "answer ?e = Slice 0"
    by simp
  have f1: "0 < expired ?e" and f2: "2000000000 < expired ?e"
    by simp_all
  have t1: "Ceil (Seconds (Sub 5000000000 0)) = 5"
    using Ceil_Seconds_whole [of 5] by (simp add: Sub_def minDuration_def maxDuration_def)
  have t2: "Ceil (Seconds (Sub 5000000000 2000000000)) = 3"
    using Ceil_Seconds_whole [of 3] by (simp add: Sub_def minDuration_def maxDuration_def)
  note T = C9_cacheGet_aliasing [OF h a f1 f2, of ?m]
  have first: "cacheGet (cached_at 5000000000) ?m 0 ''example.com.|1'' =
      ((Slice 0, True), cached_at 5000000000,
       ?m\<lparr>arrays := (arrays ?m)(0 := map (\<lambda>x. x\<lparr>TTL := 5\<rparr>) (arrays ?m 0))\<rparr>)"
    using T [THEN conjunct1] by (simp add: t1)
  from T [THEN conjunct2, THEN conjunct1] have second: "cacheGet (cached_at 5000000000)
      (snd (snd (cacheGet (cached_at 5000000000) ?m 0 ''example.com.|1''))) 2000000000 ''example.com.|1'' =
      ((Slice 0, True), cached_at 5000000000,
       ?m\<lparr>arrays := (arrays ?m)(0 := map (\<lambda>x. x\<lparr>TTL := 3\<rparr>) (arrays ?m 0))\<rparr>)"
    by (simp add: t2)
  show ?thesis
    unfolding second unfolding first by (simp add: elems_def memory_of_def)
qed

text \<open>
  Claim C10, as amended. For a non-empty answer list whose minimum TTL is at most 0 and
  not below \<open>-9223372036\<close>, \<^verbatim>\<open>cacheSet\<close> stores an entry, with an expiry at or before \<open>now\<close>;
  every get for the key at that instant or later, whatever the memory holds then, reports
  not-found and leaves the cache without an entry for the key.
\<close>

theorem C10_cacheSet_nonpositive_ttl:
  fixes m :: memory and ans :: slice
  defines "minTTL \<equiv> Min (TTL ` set (elems m ans))"
  assumes "elems m ans \<noteq> []" and "- 9223372036 \<le> minTTL" and "minTTL \<le> 0" and "now \<le> now'"
  shows "cache (cacheSet c m now key ans) key =
      Some (Cached \<lparr>answer = ans, expired = now + minTTL * 1000000000\<rparr>) \<and>
    now + minTTL * 1000000000 \<le> now \<and>
    cacheGet (cacheSet c m now key ans) m' now' key =
      ((NilSlice, False), c\<lparr>cache := (cache c)(key := None)\<rparr>, m')"
proof -
  let ?e = "\<lparr>answer = ans, expired = now + minTTL * 1000000000\<rparr>"
  have set: "cacheSet c m now key ans = c\<lparr>cache := (cache c)(key \<mapsto> Cached ?e)\<rparr>"
    using assms(2-4) by (simp add: cacheSet_nonempty int64_seconds minTTL_def)
  have entry: "cache (cacheSet c m now key ans) key = Some (Cached ?e)"
    by (simp add: set)
  have past: "now + minTTL * 1000000000 \<le> now"
    using assms(4) by simp
  then have "expired ?e \<le> now'"
    using assms(5) by simp
  then have "cacheGet (cacheSet c m now key ans) m' now' key =
      ((NilSlice, False),
       (cacheSet c m now key ans)\<lparr>cache := (cache (cacheSet c m now key ans))(key := None)\<rparr>, m')"
    by (rule cacheGet_stale [OF entry])
  then have "cacheGet (cacheSet c m now key ans) m' now' key =
      ((NilSlice, False), c\<lparr>cache := (cache c)(key := None)\<rparr>, m')"
    by (simp add: set)
  with entry past show ?thesis
    by simp
qed

text \<open>
  The theorem at the answers with TTL 0 and 30, set and read at instant 1000.
\<close>

theorem C10_cacheSet_nonpositive_ttl_witness:
  "elems (memory_of [answer_ttl 0, answer_ttl 30]) (Slice 0) \<noteq> [] \<and>
   Min (TTL ` set (elems (memory_of [answer_ttl 0, answer_ttl 30]) (Slice 0))) = 0 \<and>
   cache (cacheSet client0 (memory_of [answer_ttl 0, answer_ttl 30]) 1000 ''example.com.|1'' (Slice 0))
     ''example.com.|1'' = Some (Cached \<lparr>answer = Slice 0, expired = 1000\<rparr>) \<and>
   fst (cacheGet (cacheSet client0 (memory_of [answer_ttl 0, answer_ttl 30]) 1000 ''example.com.|1''
     (Slice 0)) (memory_of [answer_ttl 0, answer_ttl 30]) 1000 ''example.com.|1'') = (NilSlice, False) \<and>
   cache (fst (snd (cacheGet (cacheSet client0 (memory_of [answer_ttl 0, answer_ttl 30]) 1000
     ''example.com.|1'' (Slice 0)) (memory_of [answer_ttl 0, answer_ttl 30]) 1000 ''example.com.|1'')))
     ''example.com.|1'' = None \<and>
   fst (cacheGet (cacheSet client0 (memory_of [answer_ttl (- 7), answer_ttl 30]) 1000 ''example.com.|1''
     (Slice 0)) (memory_of [answer_ttl (- 7), answer_ttl 30]) 2000 ''example.com.|1'') = (NilSlice, False)"
proof -
  let ?m = "memory_of [answer_ttl 0, answer_ttl 30]"
  let ?n = "memory_of [answer_ttl (- 7), answer_ttl 30]"
  have ne: "elems ?m (Slice 0) \<noteq> []" and ne': "elems ?n (Slice 0) \<noteq> []"
    by simp_all
  have mn: "Min (TTL ` set (elems ?m (Slice 0))) = 0"
    and mn': "Min (TTL ` set (elems ?n (Slice 0))) = - 7"
    by simp_all
  have lo: "- 9223372036 \<le> Min (TTL ` set (elems ?m (Slice 0)))"
    and hi: "Min (TTL ` set (elems ?m (Slice 0))) \<le> 0"
    unfolding mn by simp_all
  have lo': "- 9223372036 \<le> Min (TTL ` set (elems ?n (Slice 0)))"
    and hi': "Min (TTL ` set (elems ?n (Slice 0))) \<le> 0"
    unfolding mn' by simp_all
  have le: "(1000::int) \<le> 1000" and le': "(1000::int) \<le> 2000"
    by simp_all
  note T = C10_cacheSet_nonpositive_ttl [OF ne lo hi le, of client0 "''example.com.|1''" ?m]
  from T have entry: "cache (cacheSet client0 ?m 1000 ''example.com.|1'' (Slice 0)) ''example.com.|1'' =
      Some (Cached \<lparr>answer = Slice 0, expired = 1000\<rparr>)"
    unfolding mn by simp
  from T have get: "cacheGet (cacheSet client0 ?m 1000 ''example.com.|1'' (Slice 0)) ?m 1000
      ''example.com.|1'' =
      ((NilSlice, False), client0\<lparr>cache := (cache client0)(''example.com.|1'' := None)\<rparr>, ?m)"
    by simp
  from C10_cacheSet_nonpositive_ttl [OF ne' lo' hi' le', of client0 "''example.com.|1''" ?n]
  have get': "cacheGet (cacheSet client0 ?n 1000 ''example.com.|1'' (Slice 0)) ?n 2000
      ''example.com.|1'' =
      ((NilSlice, False), client0\<lparr>cache := (cache client0)(''example.com.|1'' := None)\<rparr>, ?n)"
    by simp
  show ?thesis
    unfolding get get' using ne mn entry by simp
qed

text \<open>
  Claim C10 as stated fails where the product overflows: for one answer with TTL
  \<open>-9223372037\<close> set at instant 0, the stored expiry is 9223372036709551616, in the future,
  and a get at the same instant serves the answer with TTL 9223372037.
\<close>

theorem C10_overflow_counterexample:
  "map TTL (elems (memory_of [answer_ttl (- 9223372037)]) (Slice 0)) = [- 9223372037] \<and>
   cacheSet client0 (memory_of [answer_ttl (- 9223372037)]) 0 ''example.com.|1'' (Slice 0) =
     cached_at 9223372036709551616 \<and>
   fst (cacheGet (cached_at 9223372036709551616) (memory_of [answer_ttl (- 9223372037)]) 0
     ''example.com.|1'') = (Slice 0, True) \<and>
   map TTL (elems (snd (snd (cacheGet (cached_at 9223372036709551616)
     (memory_of [answer_ttl (- 9223372037)]) 0 ''example.com.|1''))) (Slice 0)) = [9223372037]"
proof -
  have "cacheSet client0 (memory_of [answer_ttl (- 9223372037)]) 0 ''example.com.|1'' (Slice 0) =
      cached_at 9223372036709551616"
    by (simp add: cacheSet_memory_of int64_def)
  moreover have "Sub 9223372036709551616 0 = 9223372036709551616"
    by (simp add: Sub_def minDuration_def maxDuration_def)
  then have "cacheGet (cached_at 9223372036709551616) (memory_of [answer_ttl (- 9223372037)]) 0
      ''example.com.|1'' =
      ((Slice 0, True), cached_at 9223372036709551616,
       set_ttls (memory_of [answer_ttl (- 9223372037)]) (Slice 0) 9223372037)"
    by (simp add: cacheGet_fresh [where e = "\<lparr>answer = Slice 0, expired = 9223372036709551616\<rparr>"]
        Ceil_Seconds_wrapped)
  ultimately show ?thesis
    by simp
qed

end
